theory Spec2Isabelle
  imports Complex_Main "HOL-Library.AList" "HOL-Library.Log_Nat" "HOL-Library.Word"
begin

section \<open>Values of the Python program\<close>

text \<open>
  The embedding follows \<^verbatim>\<open>src/extract_midi.py\<close>. Exceptions are values of
  \<open>py_error\<close>; a function that can raise returns \<open>py_error + 'a\<close>.

  Python's \<^verbatim>\<open>float\<close> and NumPy's \<^verbatim>\<open>float64\<close> are rationals, and \<open>NaN\<close> is kept as a
  value of its own, because \<^verbatim>\<open>np.mean([])\<close> returns it and \<^verbatim>\<open>int(nan)\<close> raises.

  In \<^verbatim>\<open>extract\<close> the two products that are truncated to a frame number,
  \<^verbatim>\<open>int(skip_seconds * self.fps)\<close> and \<^verbatim>\<open>int(self.fps * 20)\<close>, are computed as the machine
  computes them: both factors and the product are rounded to the nearest double
  (\<open>round_double\<close>, \<open>int_of_product\<close>), since truncation turns a rounding of the last bit
  into a whole frame. The other float operations of \<^verbatim>\<open>extract\<close> (frame times, end times,
  durations) are exact: their results are compared and stored, never truncated. The
  geometry is computed on exact rationals as well; the concrete calibrations evaluated
  below keep every position far from an integer boundary.
\<close>

datatype py_error = KeyError | ValueError | ZeroDivisionError | TypeError | OverflowError

datatype hand = Left | Right

datatype float64 = NaN | Fin rat

fun f_add :: "float64 \<Rightarrow> float64 \<Rightarrow> float64" where
  "f_add (Fin a) (Fin b) = Fin (a + b)"
| "f_add _ _ = NaN"

fun f_mul :: "float64 \<Rightarrow> float64 \<Rightarrow> float64" where
  "f_mul (Fin a) (Fin b) = Fin (a * b)"
| "f_mul _ _ = NaN"

text \<open>Division of a \<^verbatim>\<open>np.float64\<close> by the literal 7.\<close>

fun f_div7 :: "float64 \<Rightarrow> float64" where
  "f_div7 (Fin a) = Fin (a / 7)"
| "f_div7 NaN = NaN"

text \<open>\<^verbatim>\<open>int(x)\<close> of a finite float truncates toward zero.\<close>

definition trunc :: "rat \<Rightarrow> int" where
  "trunc r = (if 0 \<le> r then \<lfloor>r\<rfloor> else \<lceil>r\<rceil>)"

fun py_int :: "float64 \<Rightarrow> py_error + int" where
  "py_int NaN = Inl ValueError"
| "py_int (Fin r) = Inr (trunc r)"

subsection \<open>Rounding to a double\<close>

definition pow2 :: "int \<Rightarrow> rat" where
  "pow2 e = (if 0 \<le> e then 2 ^ nat e else 1 / 2 ^ nat (- e))"

text \<open>
  The binade of a positive rational: the \<open>e\<close> with \<open>2 ^ e \<le> x < 2 ^ (e + 1)\<close>
  (lemma \<open>binade_bounds\<close> below).
\<close>

definition binade :: "rat \<Rightarrow> int" where
  "binade x = (if 1 \<le> x then bitlen \<lfloor>x\<rfloor> - 1 else - bitlen (\<lceil>1 / x\<rceil> - 1))"

text \<open>The nearest integer, a tie going to the even one.\<close>

definition round_half_even :: "rat \<Rightarrow> int" where
  "round_half_even y =
     (let f = \<lfloor>y\<rfloor>; r = y - of_int f
      in if r < 1 / 2 then f else if 1 / 2 < r then f + 1 else if even f then f else f + 1)"

text \<open>
  IEEE 754 binary64, round to nearest, ties to even: 53 significant bits, the exponent of
  the last bit not below -1074 (subnormal numbers), and \<open>None\<close> for a result that
  overflows to an infinity. This is the conversion of a Python number to \<^verbatim>\<open>float\<close> and the
  rounding of a float product.
\<close>

definition round_double :: "rat \<Rightarrow> rat option" where
  "round_double x =
     (if x = 0 then Some 0
      else
        (let q = pow2 (max (binade \<bar>x\<bar>) (- 1022) - 52);
             r = of_int (round_half_even (x / q)) * q
         in if pow2 1024 \<le> \<bar>r\<bar> then None else Some r))"

text \<open>
  \<^verbatim>\<open>int(a * b)\<close> for two numbers used as floats. A number too large for a double raises
  \<^verbatim>\<open>OverflowError\<close> when it is converted, and so does \<^verbatim>\<open>int\<close> of a product that overflows
  to an infinity.
\<close>

definition int_of_product :: "rat \<Rightarrow> rat \<Rightarrow> py_error + int" where
  "int_of_product a b =
     (case round_double a of
        None \<Rightarrow> Inl OverflowError
      | Some x \<Rightarrow>
          (case round_double b of
             None \<Rightarrow> Inl OverflowError
           | Some y \<Rightarrow>
               (case round_double (x * y) of
                  None \<Rightarrow> Inl OverflowError
                | Some z \<Rightarrow> Inr (trunc z))))"

subsection \<open>Dictionaries, exceptions, loops\<close>

text \<open>
  A \<^verbatim>\<open>dict\<close> is an association list in insertion order with distinct keys.
  \<open>AList.update k v\<close> is \<^verbatim>\<open>d[k] = v\<close>: an existing key keeps its place, a new key goes last.
\<close>

type_synonym 'v pydict = "(int \<times> 'v) list"

definition dict_get :: "'v pydict \<Rightarrow> int \<Rightarrow> py_error + 'v" where
  "dict_get d k = (case map_of d k of None \<Rightarrow> Inl KeyError | Some v \<Rightarrow> Inr v)"

fun bind_e :: "'e + 'a \<Rightarrow> ('a \<Rightarrow> 'e + 'b) \<Rightarrow> 'e + 'b" where
  "bind_e (Inl e) f = Inl e"
| "bind_e (Inr v) f = f v"

text \<open>A \<^verbatim>\<open>for\<close> loop whose body can raise: the first exception ends the loop.\<close>

fun for_e :: "'a list \<Rightarrow> ('a \<Rightarrow> 's \<Rightarrow> 'e + 's) \<Rightarrow> 's \<Rightarrow> 'e + 's" where
  "for_e [] body s = Inr s"
| "for_e (a # as) body s =
     (case body a s of Inl e \<Rightarrow> Inl e | Inr s' \<Rightarrow> for_e as body s')"

text \<open>A list comprehension whose element expression can raise.\<close>

fun map_e :: "('a \<Rightarrow> 'e + 'b) \<Rightarrow> 'a list \<Rightarrow> 'e + 'b list" where
  "map_e f [] = Inr []"
| "map_e f (a # as) =
     (case f a of Inl e \<Rightarrow> Inl e
      | Inr b \<Rightarrow> (case map_e f as of Inl e \<Rightarrow> Inl e | Inr bs \<Rightarrow> Inr (b # bs)))"

section \<open>Keyboard geometry: \<^verbatim>\<open>__init__\<close> and \<^verbatim>\<open>_build_note_positions\<close>\<close>

record key_info =
  info_x :: int
  is_black :: bool

text \<open>What \<^verbatim>\<open>cv2.VideoCapture\<close> reports for the opened video.\<close>

record video_capture =
  cap_fps :: rat
  cap_frame_count :: int
  cap_frame_width :: int
  cap_frame_height :: int

record extractor =
  fps :: rat
  total_frames :: int
  width :: int
  height :: int
  key_sample_y :: int
  sample_width :: int
  sample_height :: int
  lit_threshold :: rat
  release_debounce_frames :: int
  c_left_edge :: "int pydict"
  octave_width :: float64
  white_key_width :: float64
  note_positions :: "key_info pydict"

definition default_c_positions :: "int pydict" where
  "default_c_positions =
     [(24, 51), (36, 224), (48, 396), (60, 567), (72, 742), (84, 914), (96, 1086)]"

text \<open>\<^verbatim>\<open>c_positions or {...}\<close>: \<^verbatim>\<open>None\<close> and the empty dict are both falsy.\<close>

definition or_default :: "int pydict option \<Rightarrow> int pydict" where
  "or_default c_positions =
     (case c_positions of
        None \<Rightarrow> default_c_positions
      | Some d \<Rightarrow> if d = [] then default_c_positions else d)"

text \<open>
  \<^verbatim>\<open>[c_left_edge[c_notes[i+1]] - c_left_edge[c_notes[i]] for i in range(len(c_notes) - 1)]\<close>
\<close>

definition octave_widths :: "int pydict \<Rightarrow> int list \<Rightarrow> py_error + int list" where
  "octave_widths edges c_notes =
     map_e (\<lambda>i. bind_e (dict_get edges (c_notes ! (i + 1)))
                    (\<lambda>hi. bind_e (dict_get edges (c_notes ! i)) (\<lambda>lo. Inr (hi - lo))))
           [0 ..< length c_notes - 1]"

text \<open>\<^verbatim>\<open>np.mean\<close> of a list of integers; the mean of the empty list is \<^verbatim>\<open>nan\<close> (with a warning).\<close>

definition np_mean :: "int list \<Rightarrow> float64" where
  "np_mean xs = (if xs = [] then NaN else Fin (of_int (sum_list xs) / of_nat (length xs)))"

definition white_positions :: "int list" where
  "white_positions = [0, 2, 4, 5, 7, 9, 11]"

definition black_info :: "(int \<times> int \<times> int) list" where
  "black_info = [(1, 0, 1), (3, 1, 2), (6, 3, 4), (8, 4, 5), (10, 5, 6)]"

text \<open>The body of the white-key loop: \<^verbatim>\<open>x = c_left + (i + 0.5) * white_key_width\<close>.\<close>

definition put_white :: "float64 \<Rightarrow> int \<Rightarrow> int \<Rightarrow> nat \<times> int \<Rightarrow> key_info pydict
    \<Rightarrow> py_error + key_info pydict" where
  "put_white wkw c_midi c_left = (\<lambda>(i, semitone) np.
     bind_e (py_int (f_add (Fin (of_int c_left)) (f_mul (Fin (of_nat i + 1 / 2)) wkw)))
       (\<lambda>xi. Inr (AList.update (c_midi + semitone) \<lparr>info_x = xi, is_black = False\<rparr> np)))"

text \<open>The body of the black-key loop: \<^verbatim>\<open>x = c_left + (left_white + 1) * white_key_width\<close>.\<close>

definition put_black :: "float64 \<Rightarrow> int \<Rightarrow> int \<Rightarrow> int \<times> int \<times> int \<Rightarrow> key_info pydict
    \<Rightarrow> py_error + key_info pydict" where
  "put_black wkw c_midi c_left = (\<lambda>(semitone, left_white, right_white) np.
     bind_e (py_int (f_add (Fin (of_int c_left)) (f_mul (Fin (of_int (left_white + 1))) wkw)))
       (\<lambda>xi. Inr (AList.update (c_midi + semitone) \<lparr>info_x = xi, is_black = True\<rparr> np)))"

text \<open>One iteration of the loop over \<^verbatim>\<open>c_left_edge.items()\<close>.\<close>

definition put_octave :: "float64 \<Rightarrow> int \<times> int \<Rightarrow> key_info pydict \<Rightarrow> py_error + key_info pydict" where
  "put_octave wkw = (\<lambda>(c_midi, c_left) np.
     bind_e (for_e (enumerate 0 white_positions) (put_white wkw c_midi c_left) np)
       (for_e black_info (put_black wkw c_midi c_left)))"

text \<open>The last loop: the white keys from pitch 96, kept when \<^verbatim>\<open>midi <= 108\<close>.\<close>

definition put_top :: "float64 \<Rightarrow> int \<Rightarrow> nat \<times> int \<Rightarrow> key_info pydict \<Rightarrow> py_error + key_info pydict" where
  "put_top wkw c7_left = (\<lambda>(i, semitone) np.
     if 96 + semitone \<le> 108 then put_white wkw 96 c7_left (i, semitone) np else Inr np)"

definition build_note_positions :: "int pydict \<Rightarrow> float64 \<Rightarrow> py_error + key_info pydict" where
  "build_note_positions edges wkw =
     bind_e (for_e edges (put_octave wkw) [])
       (\<lambda>np. bind_e (dict_get edges 96)
         (\<lambda>c7_left. for_e (enumerate 0 [0, 2, 4, 5, 7, 9, 11]) (put_top wkw c7_left) np))"

definition extractor_init :: "video_capture \<Rightarrow> int \<Rightarrow> int pydict option \<Rightarrow> py_error + extractor" where
  "extractor_init cap key_y c_positions =
     (let edges = or_default c_positions;
          c_notes = sort (map fst edges)
      in bind_e (octave_widths edges c_notes)
           (\<lambda>ws. let ow = np_mean ws; wkw = f_div7 ow
                 in bind_e (build_note_positions edges wkw)
                      (\<lambda>np. Inr \<lparr>fps = cap_fps cap,
                                 total_frames = cap_frame_count cap,
                                 width = cap_frame_width cap,
                                 height = cap_frame_height cap,
                                 key_sample_y = key_y,
                                 sample_width = 7,
                                 sample_height = 7,
                                 lit_threshold = 3 / 10,
                                 release_debounce_frames = 2,
                                 c_left_edge = edges,
                                 octave_width = ow,
                                 white_key_width = wkw,
                                 note_positions = np\<rparr>)))"

section \<open>Illumination classifier: \<^verbatim>\<open>is_key_lit\<close>\<close>

text \<open>
  A pixel of the converted region: the three 8-bit channels of OpenCV's HSV image.
\<close>

record hsv =
  hsv_h :: "8 word"
  hsv_s :: "8 word"
  hsv_v :: "8 word"

text \<open>
  A frame is the pixel buffer the capture hands out, read as \<open>frame y x\<close> (row, column);
  its shape is the \<open>height\<close> and \<open>width\<close> the capture reported. \<^verbatim>\<open>cv2.cvtColor\<close> is
  OpenCV's, not the repository's; it works pixel by pixel and is the parameter
  \<open>bgr2hsv\<close> of the model.
\<close>

type_synonym 'px frame = "int \<Rightarrow> int \<Rightarrow> 'px"

text \<open>\<^verbatim>\<open>green_mask = (h >= 35) & (h <= 85) & (s > 50) & (v > 50)\<close>, for one pixel.\<close>

definition green_mask :: "hsv \<Rightarrow> bool" where
  "green_mask p \<longleftrightarrow> 35 \<le> hsv_h p \<and> hsv_h p \<le> 85 \<and> 50 < hsv_s p \<and> 50 < hsv_v p"

text \<open>\<^verbatim>\<open>blue_mask = (h >= 85) & (h <= 135) & (s > 50) & (v > 50)\<close>, for one pixel.\<close>

definition blue_mask :: "hsv \<Rightarrow> bool" where
  "blue_mask p \<longleftrightarrow> 85 \<le> hsv_h p \<and> hsv_h p \<le> 135 \<and> 50 < hsv_s p \<and> 50 < hsv_v p"

text \<open>\<^verbatim>\<open>frame[y1:y2, x1:x2]\<close>, row by row.\<close>

definition region_of :: "'px frame \<Rightarrow> int \<Rightarrow> int \<Rightarrow> int \<Rightarrow> int \<Rightarrow> 'px list" where
  "region_of frame y1 y2 x1 x2 = concat (map (\<lambda>y. map (frame y) [x1 .. x2 - 1]) [y1 .. y2 - 1])"

text \<open>
  The two ratios are quotients of small integers (at most 49 pixels) compared with
  \<^verbatim>\<open>0.3\<close>; the float quotient is correctly rounded, so the comparison of the floats is the
  comparison of the exact quotients with \<open>3 / 10\<close>.
\<close>

definition is_key_lit :: "('px \<Rightarrow> hsv) \<Rightarrow> extractor \<Rightarrow> 'px frame \<Rightarrow> int \<Rightarrow> bool \<times> hand option" where
  "is_key_lit bgr2hsv ex frame midi =
     (case map_of (note_positions ex) midi of
        None \<Rightarrow> (False, None)
      | Some info \<Rightarrow>
          (let cx = (if is_black info then info_x info else info_x info - 3);
               cy = (if is_black info then key_sample_y ex + 15 else key_sample_y ex);
               half_w = sample_width ex div 2;
               half_h = sample_height ex div 2;
               x1 = max 0 (cx - half_w);
               x2 = min (width ex) (cx + half_w + 1);
               y1 = max 0 (cy - half_h);
               y2 = min (height ex) (cy + half_h + 1)
           in if x2 \<le> x1 \<or> y2 \<le> y1 then (False, None)
              else
                (let hsv_region = map bgr2hsv (region_of frame y1 y2 x1 x2);
                     total_pixels = (y2 - y1) * (x2 - x1);
                     green_ratio = of_nat (length (filter green_mask hsv_region)) / of_int total_pixels;
                     blue_ratio = of_nat (length (filter blue_mask hsv_region)) / of_int total_pixels
                 in if lit_threshold ex \<le> green_ratio then (True, Some Left)
                    else if lit_threshold ex \<le> blue_ratio then (True, Some Right)
                    else (False, None))))"

section \<open>Debounce state machine and timeline: \<^verbatim>\<open>extract\<close>\<close>

record key_state =
  active :: bool
  start_time :: "rat option"
  state_hand :: "hand option"
  unlit_count :: int

record note_event =
  note_midi :: int
  note_start :: rat
  note_duration :: rat
  note_hand :: "hand option"

text \<open>The state a key gets when it is first seen.\<close>

definition new_state :: key_state where
  "new_state = \<lparr>active = False, start_time = None, state_hand = None, unlit_count = 999\<rparr>"

text \<open>
  The \<^verbatim>\<open>if is_lit: ... else: ...\<close> statement of the key loop, on the key's state and the
  list \<^verbatim>\<open>all_notes\<close>. Subtracting \<^verbatim>\<open>None\<close> from a float raises \<^verbatim>\<open>TypeError\<close>; dividing by a
  zero frame rate raises \<^verbatim>\<open>ZeroDivisionError\<close>.
\<close>

definition update_key :: "extractor \<Rightarrow> rat \<Rightarrow> rat \<Rightarrow> int \<Rightarrow> bool \<times> hand option
    \<Rightarrow> key_state \<times> note_event list \<Rightarrow> py_error + key_state \<times> note_event list" where
  "update_key ex min_duration time_sec midi = (\<lambda>(is_lit, hnd) (state, all_notes).
     if is_lit then
       (let state1 = state\<lparr>unlit_count := 0\<rparr>
        in if \<not> active state1
           then Inr (state1\<lparr>active := True, start_time := Some time_sec, state_hand := hnd\<rparr>, all_notes)
           else Inr (state1, all_notes))
     else
       (let state1 = state\<lparr>unlit_count := unlit_count state + 1\<rparr>
        in if active state1 \<and> release_debounce_frames ex \<le> unlit_count state1
           then
             (if fps ex = 0 then Inl ZeroDivisionError
              else
                (let end_time = time_sec - of_int (release_debounce_frames ex - 1) / fps ex
                 in case start_time state1 of
                      None \<Rightarrow> Inl TypeError
                    | Some t0 \<Rightarrow>
                        (let dur = end_time - t0;
                             all_notes1 =
                               (if min_duration \<le> dur
                                then all_notes @ [\<lparr>note_midi = midi, note_start = t0,
                                                   note_duration = dur, note_hand = state_hand state1\<rparr>]
                                else all_notes)
                         in Inr (state1\<lparr>active := False, start_time := None\<rparr>, all_notes1))))
           else Inr (state1, all_notes)))"

text \<open>
  The body of \<^verbatim>\<open>for midi in self.note_positions\<close>: classify, create the state on first
  sight, update it in place.
\<close>

definition process_key :: "('px \<Rightarrow> hsv) \<Rightarrow> extractor \<Rightarrow> rat \<Rightarrow> rat \<Rightarrow> 'px frame \<Rightarrow> int
    \<Rightarrow> key_state pydict \<times> note_event list \<Rightarrow> py_error + key_state pydict \<times> note_event list" where
  "process_key bgr2hsv ex min_duration time_sec frame midi = (\<lambda>(note_state, all_notes).
     (let verdict = is_key_lit bgr2hsv ex frame midi;
          note_state1 = (if map_of note_state midi = None
                         then AList.update midi new_state note_state else note_state)
      in bind_e (dict_get note_state1 midi)
           (\<lambda>state. bind_e (update_key ex min_duration time_sec midi verdict (state, all_notes))
              (\<lambda>(state', all_notes'). Inr (AList.update midi state' note_state1, all_notes')))))"

text \<open>
  The \<^verbatim>\<open>while True\<close> loop, over the frames \<^verbatim>\<open>cap.read()\<close> returns after the seek, until it
  reports the end. The progress message computes \<^verbatim>\<open>frame_num % int(self.fps * 20)\<close>, which
  raises when that integer is zero (and when the conversion to an integer raises).
\<close>

fun frame_loop :: "('px \<Rightarrow> hsv) \<Rightarrow> extractor \<Rightarrow> rat \<Rightarrow> 'px frame list \<Rightarrow> int
    \<Rightarrow> key_state pydict \<times> note_event list \<Rightarrow> py_error + key_state pydict \<times> note_event list" where
  "frame_loop bgr2hsv ex min_duration [] frame_num s = Inr s"
| "frame_loop bgr2hsv ex min_duration (frame # rest) frame_num s =
     (if fps ex = 0 then Inl ZeroDivisionError
      else
        (case int_of_product (fps ex) 20 of
           Inl e \<Rightarrow> Inl e
         | Inr every \<Rightarrow>
             if every = 0 then Inl ZeroDivisionError
             else
               (case for_e (map fst (note_positions ex))
                       (process_key bgr2hsv ex min_duration (of_int frame_num / fps ex) frame) s of
                  Inl e \<Rightarrow> Inl e
                | Inr s' \<Rightarrow> frame_loop bgr2hsv ex min_duration rest (frame_num + 1) s')))"

text \<open>The body of the loop that closes the remaining notes.\<close>

definition close_key :: "rat \<Rightarrow> rat \<Rightarrow> int \<times> key_state \<Rightarrow> note_event list \<Rightarrow> note_event list" where
  "close_key final_time min_duration = (\<lambda>(midi, state) all_notes.
     case start_time state of
       None \<Rightarrow> all_notes
     | Some t0 \<Rightarrow>
         if active state \<and> min_duration \<le> final_time - t0
         then all_notes @ [\<lparr>note_midi = midi, note_start = t0,
                            note_duration = final_time - t0, note_hand = state_hand state\<rparr>]
         else all_notes)"

text \<open>
  \<^verbatim>\<open>extract\<close>, up to the list it returns: \<^verbatim>\<open>start_frame = int(skip_seconds * self.fps)\<close>,
  the frame loop from that frame number, the closing loop. The debug image and the MIDI
  file are written by other code and do not change the list.
\<close>

definition extract_notes :: "('px \<Rightarrow> hsv) \<Rightarrow> extractor \<Rightarrow> 'px frame list \<Rightarrow> rat \<Rightarrow> rat \<Rightarrow> py_error + note_event list" where
  "extract_notes bgr2hsv ex frames skip_seconds min_duration =
     bind_e (int_of_product skip_seconds (fps ex))
       (\<lambda>start_frame.
          bind_e (frame_loop bgr2hsv ex min_duration frames start_frame ([], []))
            (\<lambda>(note_state, all_notes).
               if fps ex = 0 then Inl ZeroDivisionError
               else Inr (fold (close_key (of_int (total_frames ex) / fps ex) min_duration)
                           note_state all_notes)))"

section \<open>The loop nest seen from one key\<close>

text \<open>
  The frame loop visits every key on every frame. What one key goes through is a stream
  of time-tagged verdicts, fed one by one to \<open>update_key\<close>; \<open>run_key\<close> is that run, and
  lemma \<open>extract_notes_key\<close> below shows that the notes \<open>extract_notes\<close> returns for a
  pitch are exactly the notes of that run followed by the note the closing loop adds.
\<close>

text \<open>The state of a key in \<^verbatim>\<open>note_state\<close>; a key not seen yet gets the fresh state.\<close>

definition state_of :: "key_state pydict \<Rightarrow> int \<Rightarrow> key_state" where
  "state_of note_state k = (case map_of note_state k of None \<Rightarrow> new_state | Some st \<Rightarrow> st)"

text \<open>The notes of one pitch, in the order of the list.\<close>

definition notes_of :: "int \<Rightarrow> note_event list \<Rightarrow> note_event list" where
  "notes_of k = filter (\<lambda>n. note_midi n = k)"

text \<open>
  The verdicts of key \<open>k\<close> on the frames read, each with its \<^verbatim>\<open>time_sec = frame_num / fps\<close>,
  the first frame having number \<open>frame_num\<close>.
\<close>

fun verdicts :: "('px \<Rightarrow> hsv) \<Rightarrow> extractor \<Rightarrow> int \<Rightarrow> 'px frame list \<Rightarrow> int
    \<Rightarrow> (rat \<times> bool \<times> hand option) list" where
  "verdicts bgr2hsv ex k [] frame_num = []"
| "verdicts bgr2hsv ex k (frame # rest) frame_num =
     (of_int frame_num / fps ex, is_key_lit bgr2hsv ex frame k)
       # verdicts bgr2hsv ex k rest (frame_num + 1)"

definition run_key :: "extractor \<Rightarrow> rat \<Rightarrow> int \<Rightarrow> (rat \<times> bool \<times> hand option) list
    \<Rightarrow> key_state \<times> note_event list \<Rightarrow> py_error + key_state \<times> note_event list" where
  "run_key ex min_duration k vs = for_e vs (\<lambda>(time_sec, verdict). update_key ex min_duration time_sec k verdict)"

section \<open>The default geometry, written out\<close>

text \<open>
  The table \<^verbatim>\<open>_build_note_positions\<close> leaves in \<^verbatim>\<open>self.note_positions\<close> for the built-in
  calibration, in insertion order (lemma \<open>build_default\<close> below), and the extractor object
  \<^verbatim>\<open>__init__\<close> leaves for it (lemma \<open>init_default\<close>).
\<close>

definition default_note_positions :: "key_info pydict" where
  "default_note_positions =
     [(24, \<lparr>info_x = 63, is_black = False\<rparr>), (26, \<lparr>info_x = 87, is_black = False\<rparr>),
      (28, \<lparr>info_x = 112, is_black = False\<rparr>), (29, \<lparr>info_x = 137, is_black = False\<rparr>),
      (31, \<lparr>info_x = 161, is_black = False\<rparr>), (33, \<lparr>info_x = 186, is_black = False\<rparr>),
      (35, \<lparr>info_x = 211, is_black = False\<rparr>), (25, \<lparr>info_x = 75, is_black = True\<rparr>),
      (27, \<lparr>info_x = 100, is_black = True\<rparr>), (30, \<lparr>info_x = 149, is_black = True\<rparr>),
      (32, \<lparr>info_x = 174, is_black = True\<rparr>), (34, \<lparr>info_x = 198, is_black = True\<rparr>),
      (36, \<lparr>info_x = 236, is_black = False\<rparr>), (38, \<lparr>info_x = 260, is_black = False\<rparr>),
      (40, \<lparr>info_x = 285, is_black = False\<rparr>), (41, \<lparr>info_x = 310, is_black = False\<rparr>),
      (43, \<lparr>info_x = 334, is_black = False\<rparr>), (45, \<lparr>info_x = 359, is_black = False\<rparr>),
      (47, \<lparr>info_x = 384, is_black = False\<rparr>), (37, \<lparr>info_x = 248, is_black = True\<rparr>),
      (39, \<lparr>info_x = 273, is_black = True\<rparr>), (42, \<lparr>info_x = 322, is_black = True\<rparr>),
      (44, \<lparr>info_x = 347, is_black = True\<rparr>), (46, \<lparr>info_x = 371, is_black = True\<rparr>),
      (48, \<lparr>info_x = 408, is_black = False\<rparr>), (50, \<lparr>info_x = 432, is_black = False\<rparr>),
      (52, \<lparr>info_x = 457, is_black = False\<rparr>), (53, \<lparr>info_x = 482, is_black = False\<rparr>),
      (55, \<lparr>info_x = 506, is_black = False\<rparr>), (57, \<lparr>info_x = 531, is_black = False\<rparr>),
      (59, \<lparr>info_x = 556, is_black = False\<rparr>), (49, \<lparr>info_x = 420, is_black = True\<rparr>),
      (51, \<lparr>info_x = 445, is_black = True\<rparr>), (54, \<lparr>info_x = 494, is_black = True\<rparr>),
      (56, \<lparr>info_x = 519, is_black = True\<rparr>), (58, \<lparr>info_x = 543, is_black = True\<rparr>),
      (60, \<lparr>info_x = 579, is_black = False\<rparr>), (62, \<lparr>info_x = 603, is_black = False\<rparr>),
      (64, \<lparr>info_x = 628, is_black = False\<rparr>), (65, \<lparr>info_x = 653, is_black = False\<rparr>),
      (67, \<lparr>info_x = 677, is_black = False\<rparr>), (69, \<lparr>info_x = 702, is_black = False\<rparr>),
      (71, \<lparr>info_x = 727, is_black = False\<rparr>), (61, \<lparr>info_x = 591, is_black = True\<rparr>),
      (63, \<lparr>info_x = 616, is_black = True\<rparr>), (66, \<lparr>info_x = 665, is_black = True\<rparr>),
      (68, \<lparr>info_x = 690, is_black = True\<rparr>), (70, \<lparr>info_x = 714, is_black = True\<rparr>),
      (72, \<lparr>info_x = 754, is_black = False\<rparr>), (74, \<lparr>info_x = 778, is_black = False\<rparr>),
      (76, \<lparr>info_x = 803, is_black = False\<rparr>), (77, \<lparr>info_x = 828, is_black = False\<rparr>),
      (79, \<lparr>info_x = 852, is_black = False\<rparr>), (81, \<lparr>info_x = 877, is_black = False\<rparr>),
      (83, \<lparr>info_x = 902, is_black = False\<rparr>), (73, \<lparr>info_x = 766, is_black = True\<rparr>),
      (75, \<lparr>info_x = 791, is_black = True\<rparr>), (78, \<lparr>info_x = 840, is_black = True\<rparr>),
      (80, \<lparr>info_x = 865, is_black = True\<rparr>), (82, \<lparr>info_x = 889, is_black = True\<rparr>),
      (84, \<lparr>info_x = 926, is_black = False\<rparr>), (86, \<lparr>info_x = 950, is_black = False\<rparr>),
      (88, \<lparr>info_x = 975, is_black = False\<rparr>), (89, \<lparr>info_x = 1000, is_black = False\<rparr>),
      (91, \<lparr>info_x = 1024, is_black = False\<rparr>), (93, \<lparr>info_x = 1049, is_black = False\<rparr>),
      (95, \<lparr>info_x = 1074, is_black = False\<rparr>), (85, \<lparr>info_x = 938, is_black = True\<rparr>),
      (87, \<lparr>info_x = 963, is_black = True\<rparr>), (90, \<lparr>info_x = 1012, is_black = True\<rparr>),
      (92, \<lparr>info_x = 1037, is_black = True\<rparr>), (94, \<lparr>info_x = 1061, is_black = True\<rparr>),
      (96, \<lparr>info_x = 1098, is_black = False\<rparr>), (98, \<lparr>info_x = 1122, is_black = False\<rparr>),
      (100, \<lparr>info_x = 1147, is_black = False\<rparr>), (101, \<lparr>info_x = 1172, is_black = False\<rparr>),
      (103, \<lparr>info_x = 1196, is_black = False\<rparr>), (105, \<lparr>info_x = 1221, is_black = False\<rparr>),
      (107, \<lparr>info_x = 1246, is_black = False\<rparr>), (97, \<lparr>info_x = 1110, is_black = True\<rparr>),
      (99, \<lparr>info_x = 1135, is_black = True\<rparr>), (102, \<lparr>info_x = 1184, is_black = True\<rparr>),
      (104, \<lparr>info_x = 1209, is_black = True\<rparr>), (106, \<lparr>info_x = 1233, is_black = True\<rparr>)]"

definition default_extractor :: "video_capture \<Rightarrow> int \<Rightarrow> extractor" where
  "default_extractor cap key_y =
     \<lparr>fps = cap_fps cap, total_frames = cap_frame_count cap, width = cap_frame_width cap,
      height = cap_frame_height cap, key_sample_y = key_y, sample_width = 7, sample_height = 7,
      lit_threshold = 3 / 10, release_debounce_frames = 2, c_left_edge = default_c_positions,
      octave_width = Fin (345 / 2), white_key_width = Fin (345 / 14),
      note_positions = default_note_positions\<rparr>"

text \<open>A 1276x720 video at 30 frames per second, six frames long, for the concrete runs.\<close>

definition demo_cap :: video_capture where
  "demo_cap = \<lparr>cap_fps = 30, cap_frame_count = 6, cap_frame_width = 1276, cap_frame_height = 720\<rparr>"

text \<open>
  Two frames for the concrete runs, given by their HSV images (the conversion of the
  runs is the identity): \<open>lit60_frame\<close> shows the qualifying green of hue 60 in the columns
  573 to 579, which is the sampling window of pitch 60 in the default geometry, and an
  unsaturated gray elsewhere; \<open>dark_frame\<close> is gray everywhere.
\<close>

definition demo_green :: hsv where
  "demo_green = \<lparr>hsv_h = 60, hsv_s = 200, hsv_v = 200\<rparr>"

definition demo_gray :: hsv where
  "demo_gray = \<lparr>hsv_h = 0, hsv_s = 0, hsv_v = 128\<rparr>"

definition lit60_frame :: "hsv frame" where
  "lit60_frame = (\<lambda>y x. if 573 \<le> x \<and> x \<le> 579 then demo_green else demo_gray)"

definition dark_frame :: "hsv frame" where
  "dark_frame = (\<lambda>y x. demo_gray)"

text \<open>
  A frame for the boundary of the two hue intervals: in the sampling window of pitch 60
  (columns 573 to 579, rows 497 to 503) its two upper rows have hue 85, one more pixel has
  hue 100, and the rest is gray.
\<close>

definition tie_frame :: "hsv frame" where
  "tie_frame = (\<lambda>y x. if y \<le> 498 then \<lparr>hsv_h = 85, hsv_s = 200, hsv_v = 200\<rparr>
                        else if y = 499 \<and> x = 573 then \<lparr>hsv_h = 100, hsv_s = 200, hsv_v = 200\<rparr>
                        else demo_gray)"

text \<open>A PAL video: 25 frames per second, 17 frames.\<close>

definition pal_cap :: video_capture where
  "pal_cap = \<lparr>cap_fps = 25, cap_frame_count = 17, cap_frame_width = 1276, cap_frame_height = 720\<rparr>"

section \<open>The entries of one octave\<close>

text \<open>
  The integer positions the two inner loops of \<^verbatim>\<open>_build_note_positions\<close> compute for a
  finite key width \<open>w\<close> and a left edge \<open>e\<close>, and the entry they store for the semitone
  \<open>s\<close> of an octave (lemma \<open>put_octave_Fin\<close> below).
\<close>

definition white_x :: "rat \<Rightarrow> int \<Rightarrow> nat \<Rightarrow> int" where
  "white_x w e i = trunc (of_int e + (of_nat i + 1 / 2) * w)"

definition black_x :: "rat \<Rightarrow> int \<Rightarrow> int \<Rightarrow> int" where
  "black_x w e left_white = trunc (of_int e + of_int (left_white + 1) * w)"

definition octave_key :: "rat \<Rightarrow> int \<Rightarrow> int \<Rightarrow> key_info" where
  "octave_key w e s =
     (if s = 0 then \<lparr>info_x = white_x w e 0, is_black = False\<rparr>
      else if s = 1 then \<lparr>info_x = black_x w e 0, is_black = True\<rparr>
      else if s = 2 then \<lparr>info_x = white_x w e 1, is_black = False\<rparr>
      else if s = 3 then \<lparr>info_x = black_x w e 1, is_black = True\<rparr>
      else if s = 4 then \<lparr>info_x = white_x w e 2, is_black = False\<rparr>
      else if s = 5 then \<lparr>info_x = white_x w e 3, is_black = False\<rparr>
      else if s = 6 then \<lparr>info_x = black_x w e 3, is_black = True\<rparr>
      else if s = 7 then \<lparr>info_x = white_x w e 4, is_black = False\<rparr>
      else if s = 8 then \<lparr>info_x = black_x w e 4, is_black = True\<rparr>
      else if s = 9 then \<lparr>info_x = white_x w e 5, is_black = False\<rparr>
      else if s = 10 then \<lparr>info_x = black_x w e 5, is_black = True\<rparr>
      else \<lparr>info_x = white_x w e 6, is_black = False\<rparr>)"

section \<open>Invariants of the run\<close>

text \<open>A Pressed key has a start time: the subtraction in the release branch cannot raise.\<close>

definition wf_state :: "key_state \<Rightarrow> bool" where
  "wf_state st \<longleftrightarrow> (active st \<longrightarrow> start_time st \<noteq> None)"

definition wf_states :: "key_state pydict \<Rightarrow> bool" where
  "wf_states note_state \<longleftrightarrow> (\<forall>k. wf_state (state_of note_state k))"

text \<open>
  Every recorded start time and every note start is at least \<open>lo\<close>, and every note lasts at
  least the minimum duration.
\<close>

definition starts_from :: "rat \<Rightarrow> rat \<Rightarrow> key_state pydict \<times> note_event list \<Rightarrow> bool" where
  "starts_from lo md s \<longleftrightarrow>
     (\<forall>k t. start_time (state_of (fst s) k) = Some t \<longrightarrow> lo \<le> t)
     \<and> (\<forall>n\<in>set (snd s). lo \<le> note_start n \<and> md \<le> note_duration n)"

text \<open>
  Frame \<open>i\<close> of a verdict stream starts a press: its verdict is lit, and the verdicts before
  it, as far back as the debounce threshold reaches (one frame at least), are all unlit, so
  that the key is Idle when frame \<open>i\<close> arrives.
\<close>

definition press_start :: "int \<Rightarrow> (rat \<times> bool \<times> hand option) list \<Rightarrow> nat \<Rightarrow> bool" where
  "press_start rdf vs i \<longleftrightarrow>
     i < length vs \<and> fst (snd (vs ! i))
     \<and> (\<forall>j<i. int i \<le> int j + max 1 rdf \<longrightarrow> \<not> fst (snd (vs ! j)))"

text \<open>
  What holds of a key's state and notes after the verdicts \<open>vs\<close>: a Pressed key carries the
  time and hand of the frame that started the press, and its count is the number of unlit
  verdicts at the end of the stream; an Idle key has seen only unlit verdicts within reach
  of the threshold; every note carries the time and hand of a frame that started a press.
\<close>

definition key_inv :: "int \<Rightarrow> (rat \<times> bool \<times> hand option) list \<Rightarrow> key_state \<times> note_event list \<Rightarrow> bool" where
  "key_inv rdf vs s \<longleftrightarrow>
     (active (fst s) \<longrightarrow>
        0 \<le> unlit_count (fst s)
        \<and> (\<exists>i. press_start rdf vs i \<and> start_time (fst s) = Some (fst (vs ! i))
                \<and> state_hand (fst s) = snd (snd (vs ! i)))
        \<and> (\<forall>j<length vs. int (length vs) \<le> int j + unlit_count (fst s) \<longrightarrow> \<not> fst (snd (vs ! j))))
     \<and> (\<not> active (fst s) \<longrightarrow>
          (\<forall>j<length vs. int (length vs) \<le> int j + max 1 rdf \<longrightarrow> \<not> fst (snd (vs ! j))))
     \<and> (\<forall>n\<in>set (snd s). \<exists>i. press_start rdf vs i \<and> note_start n = fst (vs ! i)
                               \<and> note_hand n = snd (snd (vs ! i)))"

text \<open>
  A Pressed key has seen a lit verdict within reach of the threshold: its count is below
  the threshold, and the verdict just before the counted unlit ones is lit.
\<close>

definition key_live :: "int \<Rightarrow> (rat \<times> bool \<times> hand option) list \<Rightarrow> key_state \<Rightarrow> bool" where
  "key_live rdf vs st \<longleftrightarrow>
     (active st \<longrightarrow>
        0 \<le> unlit_count st \<and> unlit_count st < max 1 rdf
        \<and> (\<exists>j<length vs. int (length vs) = int j + unlit_count st + 1 \<and> fst (snd (vs ! j))))"

section \<open>Basic facts\<close>

lemma bind_e_Inr_iff: "bind_e r f = Inr y \<longleftrightarrow> (\<exists>v. r = Inr v \<and> f v = Inr y)"
  by (cases r) auto

lemma floor_rat_numeral: "\<lfloor>(numeral a :: rat) / numeral b\<rfloor> = numeral a div numeral b"
  by (metis floor_divide_of_int_eq of_int_numeral)

lemma for_e_invariant:
  assumes "for_e as body s = Inr s'" and "I s"
    and "\<And>a s s'. a \<in> set as \<Longrightarrow> I s \<Longrightarrow> body a s = Inr s' \<Longrightarrow> I s'"
  shows "I s'"
  using assms
proof (induction as arbitrary: s)
  case Nil
  then show ?case by simp
next
  case (Cons a as)
  from Cons.prems(1) obtain s1 where a: "body a s = Inr s1" and r: "for_e as body s1 = Inr s'"
    by (auto split: sum.splits)
  have i1: "I s1" using Cons.prems(3) [OF _ Cons.prems(2) a] by simp
  show ?case
  proof (rule Cons.IH [OF r i1])
    fix a' t t' assume "a' \<in> set as" "I t" "body a' t = Inr t'"
    then show "I t'" using Cons.prems(3) [of a' t t'] by simp
  qed
qed

lemma for_e_total:
  assumes "I s" and "\<And>a s. a \<in> set as \<Longrightarrow> I s \<Longrightarrow> \<exists>s'. body a s = Inr s' \<and> I s'"
  shows "\<exists>s'. for_e as body s = Inr s' \<and> I s'"
  using assms
proof (induction as arbitrary: s)
  case Nil
  then show ?case by simp
next
  case (Cons a as)
  from Cons.prems(2) [of a s] Cons.prems(1) obtain s1 where a: "body a s = Inr s1" and i: "I s1"
    by auto
  from Cons.IH [OF i] Cons.prems(2) obtain s' where "for_e as body s1 = Inr s'" "I s'"
    by auto
  with a show ?case by simp
qed

section \<open>The geometry of the default calibration\<close>

lemma sorted_default: "sort (map fst default_c_positions) = [24, 36, 48, 60, 72, 84, 96]"
  by (simp add: default_c_positions_def)

lemma widths_default:
  "octave_widths default_c_positions [24, 36, 48, 60, 72, 84, 96] = Inr [173, 172, 171, 175, 172, 172]"
  by (simp add: octave_widths_def default_c_positions_def dict_get_def upt_rec)

lemma mean_default: "np_mean [173, 172, 171, 175, 172, 172] = Fin (345 / 2)"
  by (simp add: np_mean_def)

lemma build_default:
  "build_note_positions default_c_positions (Fin (345 / 14)) = Inr default_note_positions"
  by (simp add: build_note_positions_def default_c_positions_def put_octave_def put_white_def
      put_black_def put_top_def white_positions_def black_info_def dict_get_def trunc_def
      default_note_positions_def floor_rat_numeral)

lemma init_default: "extractor_init cap key_y None = Inr (default_extractor cap key_y)"
  by (simp add: extractor_init_def or_default_def sorted_default widths_default mean_default
      build_default default_extractor_def)

lemma default_keys_sorted: "sort (map fst default_note_positions) = [24 .. 107]"
  by (simp add: default_note_positions_def)

text \<open>
  C1. The docstring of \<^verbatim>\<open>_build_note_positions\<close> promises positions for all 88 keys
  (pitches 21 to 108). For the built-in calibration the constructor succeeds and the
  table holds one entry for each of the 84 pitches 24 to 107 and nothing else: the
  pitches 21, 22, 23 and 108 have no entry. The last loop starts again from pitch 96,
  whose octave the main loop has already filled, so its test \<^verbatim>\<open>midi <= 108\<close> never meets
  pitch 108. No other calibration of C pitches repairs this: by lemma
  \<open>never_exactly_88_keys\<close> below the key set is never the set of pitches 21 to 108.
\<close>

theorem default_geometry_has_84_keys:
  "\<exists>ex. extractor_init cap key_y None = Inr ex
       \<and> length (note_positions ex) = 84
       \<and> sort (map fst (note_positions ex)) = [24 .. 107]
       \<and> map_of (note_positions ex) 21 = None
       \<and> map_of (note_positions ex) 22 = None
       \<and> map_of (note_positions ex) 23 = None
       \<and> map_of (note_positions ex) 108 = None"
proof -
  have "length default_note_positions = 84"
    by (simp add: default_note_positions_def)
  moreover have "map_of default_note_positions 21 = None" "map_of default_note_positions 22 = None"
    "map_of default_note_positions 23 = None" "map_of default_note_positions 108 = None"
    by (simp_all add: default_note_positions_def)
  ultimately show ?thesis
    by (simp add: init_default default_extractor_def default_keys_sorted)
qed

section \<open>A calibration with fewer than two points\<close>

lemma init_one_point: "extractor_init cap key_y (Some [(k, e)]) = Inl ValueError"
  by (simp add: extractor_init_def or_default_def octave_widths_def np_mean_def
      build_note_positions_def put_octave_def put_white_def white_positions_def)

lemma init_empty: "extractor_init cap key_y (Some []) = extractor_init cap key_y None"
  by (simp add: extractor_init_def or_default_def)

text \<open>
  C5, as the code has it. A calibration with exactly one reference point makes the
  constructor fail: the list of octave widths is empty, its mean is NaN, and the first
  \<^verbatim>\<open>int(x)\<close> raises \<^verbatim>\<open>ValueError\<close>. An empty calibration is falsy, so
  \<^verbatim>\<open>c_positions or {...}\<close> replaces it by the built-in calibration and the constructor
  behaves as if no calibration had been given.
\<close>

theorem one_point_calibration_fails:
  "(length c = 1 \<longrightarrow> extractor_init cap key_y (Some c) = Inl ValueError)
   \<and> extractor_init cap key_y (Some []) = extractor_init cap key_y None
   \<and> extractor_init cap key_y (Some []) = Inr (default_extractor cap key_y)"
proof -
  have "extractor_init cap key_y (Some c) = Inl ValueError" if "length c = 1"
  proof -
    from that obtain k e where "c = [(k, e)]"
      by (cases c) auto
    then show ?thesis
      by (simp add: init_one_point)
  qed
  then show ?thesis
    by (simp add: init_empty init_default)
qed

theorem one_point_calibration_fails_witness:
  "length [(60 :: int, 567 :: int)] = 1
   \<and> extractor_init demo_cap 500 (Some [(60, 567)]) = Inl ValueError
   \<and> extractor_init demo_cap 500 (Some []) = extractor_init demo_cap 500 None
   \<and> extractor_init demo_cap 500 (Some []) = Inr (default_extractor demo_cap 500)"
proof -
  have l: "length [(60 :: int, 567 :: int)] = 1"
    by simp
  from one_point_calibration_fails [of "[(60, 567)]" demo_cap 500] l show ?thesis
    by blast
qed

text \<open>
  The claim as the specification states it fails for the empty calibration, which has
  fewer than two points: the constructor returns the default geometry.
\<close>

theorem empty_calibration_builds_default:
  "extractor_init demo_cap 500 (Some []) = Inr (default_extractor demo_cap 500)"
  by (simp add: init_empty init_default)

section \<open>The geometry of any calibration\<close>

lemma put_octave_Fin:
  "put_octave (Fin w) (c, e) np =
     Inr (AList.update (c + 10) \<lparr>info_x = black_x w e 5, is_black = True\<rparr>
         (AList.update (c + 8) \<lparr>info_x = black_x w e 4, is_black = True\<rparr>
         (AList.update (c + 6) \<lparr>info_x = black_x w e 3, is_black = True\<rparr>
         (AList.update (c + 3) \<lparr>info_x = black_x w e 1, is_black = True\<rparr>
         (AList.update (c + 1) \<lparr>info_x = black_x w e 0, is_black = True\<rparr>
         (AList.update (c + 11) \<lparr>info_x = white_x w e 6, is_black = False\<rparr>
         (AList.update (c + 9) \<lparr>info_x = white_x w e 5, is_black = False\<rparr>
         (AList.update (c + 7) \<lparr>info_x = white_x w e 4, is_black = False\<rparr>
         (AList.update (c + 5) \<lparr>info_x = white_x w e 3, is_black = False\<rparr>
         (AList.update (c + 4) \<lparr>info_x = white_x w e 2, is_black = False\<rparr>
         (AList.update (c + 2) \<lparr>info_x = white_x w e 1, is_black = False\<rparr>
         (AList.update c \<lparr>info_x = white_x w e 0, is_black = False\<rparr> np))))))))))))"
  by (simp add: put_octave_def put_white_def put_black_def white_positions_def black_info_def
      white_x_def black_x_def)

lemma put_octave_map:
  assumes "put_octave (Fin w) (c, e) np = Inr np'"
  shows "map_of np' m = (if c \<le> m \<and> m < c + 12 then Some (octave_key w e (m - c)) else map_of np m)"
proof -
  have "m < c \<or> c + 12 \<le> m \<or> m = c \<or> m = c + 1 \<or> m = c + 2 \<or> m = c + 3 \<or> m = c + 4
    \<or> m = c + 5 \<or> m = c + 6 \<or> m = c + 7 \<or> m = c + 8 \<or> m = c + 9 \<or> m = c + 10 \<or> m = c + 11"
    by arith
  then show ?thesis
    using assms
    by (elim disjE) (auto simp: put_octave_Fin update_conv' octave_key_def)
qed

lemma octave_of: "c mod 12 = 0 \<Longrightarrow> (c \<le> m \<and> m < c + 12) = (m - m mod 12 = (c::int))"
  by presburger

lemma octave_loop_map:
  assumes "for_e edges (put_octave (Fin w)) np = Inr np'"
    and "\<forall>p\<in>set edges. fst p mod 12 = 0" and "distinct (map fst edges)"
  shows "map_of np' m = (case map_of edges (m - m mod 12) of
                          None \<Rightarrow> map_of np m
                        | Some e \<Rightarrow> Some (octave_key w e (m mod 12)))"
  using assms
proof (induction edges arbitrary: np)
  case Nil
  then show ?case by simp
next
  case (Cons p edges)
  obtain c e where p: "p = (c, e)" by (cases p)
  from Cons.prems(1) p obtain np1 where
    oct: "put_octave (Fin w) (c, e) np = Inr np1"
    and rest: "for_e edges (put_octave (Fin w)) np1 = Inr np'"
    by (auto split: sum.splits)
  from Cons.prems(2,3) p have c12: "c mod 12 = 0" and all12: "\<forall>p\<in>set edges. fst p mod 12 = 0"
    and d: "distinct (map fst edges)" and fresh: "c \<notin> fst ` set edges"
    by simp_all
  note IH = Cons.IH [OF rest all12 d]
  show ?case
  proof (cases "map_of edges (m - m mod 12)")
    case None
    with IH have "map_of np' m = map_of np1 m" by simp
    also have "\<dots> = (if m - m mod 12 = c then Some (octave_key w e (m - c)) else map_of np m)"
      using put_octave_map [OF oct, of m] octave_of [OF c12, of m] by simp
    finally show ?thesis
      using None p by auto
  next
    case (Some e')
    then have "(m - m mod 12, e') \<in> set edges"
      by (rule map_of_SomeD)
    then have "m - m mod 12 \<in> fst ` set edges"
      by force
    with fresh have "m - m mod 12 \<noteq> c" by auto
    with IH Some p show ?thesis by simp
  qed
qed

lemma put_top_map:
  assumes "for_e (enumerate 0 [0, 2, 4, 5, 7, 9, 11]) (put_top (Fin w) e) np = Inr np'"
  shows "map_of np' m =
     (if m = 96 \<or> m = 98 \<or> m = 100 \<or> m = 101 \<or> m = 103 \<or> m = 105 \<or> m = 107
      then Some (octave_key w e (m - 96)) else map_of np m)"
  using assms
  by (auto simp: put_top_def put_white_def update_conv' octave_key_def white_x_def)

lemma build_map:
  assumes "build_note_positions edges (Fin w) = Inr np"
    and "\<forall>p\<in>set edges. fst p mod 12 = 0" and "distinct (map fst edges)"
  shows "map_of np m = (case map_of edges (m - m mod 12) of
                          None \<Rightarrow> None
                        | Some e \<Rightarrow> Some (octave_key w e (m mod 12)))"
proof -
  from assms(1) obtain np1 e96 where
    loop: "for_e edges (put_octave (Fin w)) [] = Inr np1"
    and e96: "map_of edges 96 = Some e96"
    and top: "for_e (enumerate 0 [0, 2, 4, 5, 7, 9, 11]) (put_top (Fin w) e96) np1 = Inr np"
    by (auto simp: build_note_positions_def bind_e_Inr_iff dict_get_def split: option.splits)
  have base: "map_of np1 m = (case map_of edges (m - m mod 12) of
                          None \<Rightarrow> None
                        | Some e \<Rightarrow> Some (octave_key w e (m mod 12)))"
    using octave_loop_map [OF loop assms(2,3), of m] by (auto split: option.splits)
  show ?thesis
  proof (cases "m = 96 \<or> m = 98 \<or> m = 100 \<or> m = 101 \<or> m = 103 \<or> m = 105 \<or> m = 107")
    case True
    then have "m - m mod 12 = 96" "m mod 12 = m - 96"
      by auto
    with put_top_map [OF top, of m] True e96 show ?thesis
      by simp
  next
    case False
    with put_top_map [OF top, of m] base show ?thesis
      by simp
  qed
qed

lemma trunc_less: "0 \<le> a \<Longrightarrow> a + 1 \<le> b \<Longrightarrow> trunc a < trunc b"
  by (simp add: trunc_def) linarith

lemma white_black_white:
  assumes "0 \<le> e" and "2 \<le> w"
  shows "white_x w e i < black_x w e (int i)" and "black_x w e (int i) < white_x w e (Suc i)"
proof -
  have nn: "0 \<le> of_nat i * w"
    using assms(2) by simp
  have a: "(0::rat) \<le> of_int e + (of_nat i + 1 / 2) * w"
    using assms nn by (simp add: algebra_simps)
  have b: "(0::rat) \<le> of_int e + of_int (int i + 1) * w"
    using assms nn by (simp add: algebra_simps)
  have "of_int e + (of_nat i + 1 / 2) * w + 1 \<le> of_int e + of_int (int i + 1) * w"
    using assms(2) by (simp add: algebra_simps)
  from trunc_less [OF a this] show "white_x w e i < black_x w e (int i)"
    by (simp add: white_x_def black_x_def)
  have "of_int e + of_int (int i + 1) * w + 1 \<le> of_int e + (of_nat (Suc i) + 1 / 2) * w"
    using assms(2) by (simp add: algebra_simps)
  from trunc_less [OF b this] show "black_x w e (int i) < white_x w e (Suc i)"
    by (simp add: white_x_def black_x_def)
qed

lemma black_between:
  assumes "0 \<le> e" and "2 \<le> w" and "0 \<le> s" and "s < 12" and "is_black (octave_key w e s)"
  shows "\<not> is_black (octave_key w e (s - 1)) \<and> \<not> is_black (octave_key w e (s + 1))
       \<and> info_x (octave_key w e (s - 1)) < info_x (octave_key w e s)
       \<and> info_x (octave_key w e s) < info_x (octave_key w e (s + 1))
       \<and> 1 \<le> s \<and> s \<le> 10"
proof -
  from assms(3,4,5) have "s = 1 \<or> s = 3 \<or> s = 6 \<or> s = 8 \<or> s = 10"
    by (simp add: octave_key_def split: if_splits)
  then show ?thesis
    using white_black_white [OF assms(1,2), of 0] white_black_white [OF assms(1,2), of 1]
      white_black_white [OF assms(1,2), of 3] white_black_white [OF assms(1,2), of 4]
      white_black_white [OF assms(1,2), of 5]
    by (elim disjE) (simp_all add: octave_key_def numeral_eq_Suc)
qed

lemma extractor_init_Inr:
  assumes "extractor_init cap key_y c_positions = Inr ex"
  shows "build_note_positions (c_left_edge ex) (white_key_width ex) = Inr (note_positions ex)"
    and "c_left_edge ex = or_default c_positions"
  using assms
  by (auto simp: extractor_init_def Let_def bind_e_Inr_iff)

text \<open>
  The last loop reads \<^verbatim>\<open>self.c_left_edge[96]\<close>: the constructor succeeds only when pitch 96
  is calibrated, and raises \<^verbatim>\<open>KeyError\<close> for the two lowest octaves alone.
\<close>

lemma init_needs_96:
  assumes "extractor_init cap key_y c_positions = Inr ex"
  shows "96 \<in> fst ` set (c_left_edge ex)"
proof -
  from extractor_init_Inr(1) [OF assms] have "map_of (c_left_edge ex) 96 \<noteq> None"
    by (auto simp: build_note_positions_def bind_e_Inr_iff dict_get_def split: option.splits)
  then show ?thesis
    by (simp add: map_of_eq_None_iff)
qed

lemma two_octaves_without_c7:
  "extractor_init cap key_y (Some [(24, 51), (36, 224)]) = Inl KeyError"
  by (simp add: extractor_init_def or_default_def octave_widths_def dict_get_def np_mean_def
      build_note_positions_def put_octave_def put_white_def put_black_def
      white_positions_def black_info_def upt_rec)

text \<open>
  In the table \<^verbatim>\<open>black_info\<close> the two white neighbours of a black key are the keys one
  semitone below and one semitone above it.
\<close>

lemma black_info_neighbours:
  "\<forall>(semitone, left_white, right_white)\<in>set black_info.
     white_positions ! nat left_white = semitone - 1 \<and> white_positions ! nat right_white = semitone + 1"
  by (simp add: black_info_def white_positions_def)

text \<open>Every table the constructor builds has distinct keys.\<close>

lemma put_white_distinct:
  "put_white wkw c e p np = Inr np' \<Longrightarrow> distinct (map fst np) \<Longrightarrow> distinct (map fst np')"
  by (cases p) (auto simp: put_white_def bind_e_Inr_iff distinct_update)

lemma put_black_distinct:
  "put_black wkw c e p np = Inr np' \<Longrightarrow> distinct (map fst np) \<Longrightarrow> distinct (map fst np')"
  by (cases p) (auto simp: put_black_def bind_e_Inr_iff distinct_update)

lemma put_octave_distinct:
  assumes "put_octave wkw p np = Inr np'" and "distinct (map fst np)"
  shows "distinct (map fst np')"
proof -
  obtain c e where p: "p = (c, e)" by (cases p)
  from assms(1) p obtain np1 where
    w: "for_e (enumerate 0 white_positions) (put_white wkw c e) np = Inr np1"
    and b: "for_e black_info (put_black wkw c e) np1 = Inr np'"
    by (auto simp: put_octave_def bind_e_Inr_iff)
  have "distinct (map fst np1)"
    by (rule for_e_invariant [OF w, where I = "\<lambda>t. distinct (map fst t)"])
       (use assms(2) in \<open>auto dest: put_white_distinct\<close>)
  then show ?thesis
    by (intro for_e_invariant [OF b, where I = "\<lambda>t. distinct (map fst t)"])
       (auto dest: put_black_distinct)
qed

lemma put_top_distinct:
  "put_top wkw e p np = Inr np' \<Longrightarrow> distinct (map fst np) \<Longrightarrow> distinct (map fst np')"
  by (cases p) (auto simp: put_top_def dest: put_white_distinct split: if_splits)

lemma build_distinct:
  assumes "build_note_positions edges wkw = Inr np"
  shows "distinct (map fst np)"
proof -
  from assms obtain np1 e96 where
    loop: "for_e edges (put_octave wkw) [] = Inr np1"
    and top: "for_e (enumerate 0 [0, 2, 4, 5, 7, 9, 11]) (put_top wkw e96) np1 = Inr np"
    by (auto simp: build_note_positions_def bind_e_Inr_iff)
  have "distinct (map fst np1)"
    by (rule for_e_invariant [OF loop, where I = "\<lambda>t. distinct (map fst t)"])
       (auto dest: put_octave_distinct)
  then show ?thesis
    by (intro for_e_invariant [OF top, where I = "\<lambda>t. distinct (map fst t)"])
       (auto dest: put_top_distinct)
qed

lemma init_distinct:
  "extractor_init cap key_y c_positions = Inr ex \<Longrightarrow> distinct (map fst (note_positions ex))"
  by (rule build_distinct) (rule extractor_init_Inr(1))

text \<open>A NaN key width makes the first conversion raise.\<close>

lemma build_NaN: "edges \<noteq> [] \<Longrightarrow> build_note_positions edges NaN = Inl ValueError"
  by (cases edges)
     (auto simp: build_note_positions_def put_octave_def put_white_def white_positions_def)

lemma or_default_nonempty: "or_default c_positions \<noteq> []"
  by (simp add: or_default_def default_c_positions_def split: option.splits)

lemma init_width_finite:
  assumes "extractor_init cap key_y c_positions = Inr ex"
  shows "\<exists>w. white_key_width ex = Fin w"
proof (cases "white_key_width ex")
  case NaN
  with extractor_init_Inr [OF assms] or_default_nonempty [of c_positions] build_NaN [of "c_left_edge ex"]
  show ?thesis by simp
next
  case (Fin w)
  then show ?thesis by simp
qed

text \<open>
  With calibrated pitches that are distinct multiples of 12, a pitch has an entry exactly
  when the C of its octave is calibrated. So pitch 108 has an entry only together with
  pitch 109: no such calibration gives the key set 21 to 108.
\<close>

lemma entry_iff_octave_calibrated:
  assumes "extractor_init cap key_y c_positions = Inr ex"
    and "distinct (map fst (c_left_edge ex))"
    and "\<forall>p\<in>set (c_left_edge ex). fst p mod 12 = 0"
  shows "m \<in> fst ` set (note_positions ex) \<longleftrightarrow> m - m mod 12 \<in> fst ` set (c_left_edge ex)"
proof -
  from init_width_finite [OF assms(1)] obtain w where w: "white_key_width ex = Fin w"
    by blast
  have build: "build_note_positions (c_left_edge ex) (Fin w) = Inr (note_positions ex)"
    using extractor_init_Inr(1) [OF assms(1)] w by simp
  have "map_of (note_positions ex) m = None \<longleftrightarrow> map_of (c_left_edge ex) (m - m mod 12) = None"
    using build_map [OF build assms(3,2), of m] by (simp split: option.splits)
  then show ?thesis
    by (simp add: map_of_eq_None_iff)
qed

lemma never_exactly_88_keys:
  assumes "extractor_init cap key_y c_positions = Inr ex"
    and "distinct (map fst (c_left_edge ex))"
    and "\<forall>p\<in>set (c_left_edge ex). fst p mod 12 = 0"
  shows "fst ` set (note_positions ex) \<noteq> {21 .. 108}"
proof
  assume eq: "fst ` set (note_positions ex) = {21 .. 108}"
  then have "108 \<in> fst ` set (note_positions ex)" by simp
  then have "108 \<in> fst ` set (c_left_edge ex)"
    using entry_iff_octave_calibrated [OF assms, of 108] by simp
  then have "109 \<in> fst ` set (note_positions ex)"
    using entry_iff_octave_calibrated [OF assms, of 109] by simp
  with eq show False by simp
qed

text \<open>
  C8, as the code has it. The calibrated pitches are distinct multiples of 12 with
  non-negative left edges, and the white-key width (the mean octave width divided by 7)
  is at least 2 pixels. Then every black key of the table the constructor builds has its
  two neighbouring white keys in the table, one semitone below and one above, and its
  stored x-position lies strictly between theirs. (The positions are computed on exact
  rationals; the default calibration, of width 345/14, is an instance.)
\<close>

theorem black_keys_between_neighbours:
  assumes "extractor_init cap key_y c_positions = Inr ex"
    and "distinct (map fst (c_left_edge ex))"
    and "\<forall>p\<in>set (c_left_edge ex). fst p mod 12 = 0 \<and> 0 \<le> snd p"
    and "white_key_width ex = Fin w" and "2 \<le> w"
    and "map_of (note_positions ex) m = Some b" and "is_black b"
  shows "\<exists>l r. map_of (note_positions ex) (m - 1) = Some l \<and> map_of (note_positions ex) (m + 1) = Some r
           \<and> \<not> is_black l \<and> \<not> is_black r \<and> info_x l < info_x b \<and> info_x b < info_x r"
proof -
  let ?np = "note_positions ex"
  let ?edges = "c_left_edge ex"
  have build: "build_note_positions ?edges (Fin w) = Inr ?np"
    using extractor_init_Inr(1) [OF assms(1)] assms(4) by simp
  have c12: "\<forall>p\<in>set ?edges. fst p mod 12 = 0"
    using assms(3) by simp
  note tab = build_map [OF build c12 assms(2)]
  from tab [of m] assms(6) obtain e where
    e: "map_of ?edges (m - m mod 12) = Some e" and b: "b = octave_key w e (m mod 12)"
    by (auto split: option.splits)
  from e have "(m - m mod 12, e) \<in> set ?edges"
    by (rule map_of_SomeD)
  with assms(3) have e0: "0 \<le> e"
    by auto
  have rng: "0 \<le> m mod 12" "m mod 12 < 12"
    by simp_all
  from black_between [OF e0 assms(5) rng] assms(7) b
  have wl: "\<not> is_black (octave_key w e (m mod 12 - 1))" and wr: "\<not> is_black (octave_key w e (m mod 12 + 1))"
    and xl: "info_x (octave_key w e (m mod 12 - 1)) < info_x b"
    and xr: "info_x b < info_x (octave_key w e (m mod 12 + 1))"
    and lo: "1 \<le> m mod 12" and hi: "m mod 12 \<le> 10"
    by simp_all
  from lo hi have l_oct: "(m - 1) - (m - 1) mod 12 = m - m mod 12" and l_sem: "(m - 1) mod 12 = m mod 12 - 1"
    and r_oct: "(m + 1) - (m + 1) mod 12 = m - m mod 12" and r_sem: "(m + 1) mod 12 = m mod 12 + 1"
    by presburger+
  have "map_of ?np (m - 1) = Some (octave_key w e (m mod 12 - 1))"
    using tab [of "m - 1"] e by (simp add: l_oct l_sem)
  moreover have "map_of ?np (m + 1) = Some (octave_key w e (m mod 12 + 1))"
    using tab [of "m + 1"] e by (simp add: r_oct r_sem)
  ultimately show ?thesis
    using wl wr xl xr by simp
qed

theorem black_keys_between_neighbours_witness:
  "extractor_init demo_cap 500 None = Inr (default_extractor demo_cap 500)
   \<and> distinct (map fst (c_left_edge (default_extractor demo_cap 500)))
   \<and> white_key_width (default_extractor demo_cap 500) = Fin (345 / 14)
   \<and> (2 :: rat) \<le> 345 / 14
   \<and> map_of (note_positions (default_extractor demo_cap 500)) 61 = Some \<lparr>info_x = 591, is_black = True\<rparr>
   \<and> is_black \<lparr>info_x = 591, is_black = True\<rparr>
   \<and> (\<exists>l r. map_of (note_positions (default_extractor demo_cap 500)) (61 - 1) = Some l
           \<and> map_of (note_positions (default_extractor demo_cap 500)) (61 + 1) = Some r
           \<and> \<not> is_black l \<and> \<not> is_black r \<and> info_x l < 591 \<and> 591 < info_x r)"
proof -
  let ?ex = "default_extractor demo_cap 500"
  have d: "distinct (map fst (c_left_edge ?ex))"
    by (simp add: default_extractor_def default_c_positions_def)
  have c: "\<forall>p\<in>set (c_left_edge ?ex). fst p mod 12 = 0 \<and> 0 \<le> snd p"
    by (simp add: default_extractor_def default_c_positions_def)
  have w: "white_key_width ?ex = Fin (345 / 14)"
    by (simp add: default_extractor_def)
  have w2: "(2 :: rat) \<le> 345 / 14"
    by simp
  have m: "map_of (note_positions ?ex) 61 = Some \<lparr>info_x = 591, is_black = True\<rparr>"
    by (simp add: default_extractor_def default_note_positions_def)
  have b: "is_black \<lparr>info_x = 591, is_black = True\<rparr>"
    by simp
  show ?thesis
    using black_keys_between_neighbours [OF init_default d c w w2 m b] init_default [of demo_cap 500] d w m
    by simp
qed

text \<open>
  The claim as the specification states it, for every calibration, fails when the octave
  is narrow: with C6 at pixel 0 and C7 at pixel 7 the white-key width is 1, and the black
  key 85 is stored at x = 1, where its right-hand white neighbour 86 is stored too.
\<close>

lemma floor_rat_one_numeral: "\<lfloor>(1 :: rat) / numeral b\<rfloor> = 1 div numeral b"
  by (metis floor_divide_of_int_eq of_int_1 of_int_numeral)

theorem narrow_octave_black_on_white:
  "map_sum (\<lambda>e. e) (\<lambda>ex. (map_of (note_positions ex) 85, map_of (note_positions ex) 86))
     (extractor_init demo_cap 500 (Some [(84, 0), (96, 7)]))
   = Inr (Some \<lparr>info_x = 1, is_black = True\<rparr>, Some \<lparr>info_x = 1, is_black = False\<rparr>)"
  by (simp add: extractor_init_def or_default_def octave_widths_def dict_get_def np_mean_def
      build_note_positions_def put_octave_def put_white_def put_black_def put_top_def
      white_positions_def black_info_def trunc_def floor_rat_numeral floor_rat_one_numeral upt_rec)

section \<open>The classifier\<close>

text \<open>
  C10. A pitch with no geometry entry is unlit with no hand, whatever the frame.
\<close>

theorem unknown_pitch_is_unlit:
  "map_of (note_positions ex) midi = None \<Longrightarrow> is_key_lit bgr2hsv ex frame midi = (False, None)"
  by (simp add: is_key_lit_def)

theorem unknown_pitch_is_unlit_witness:
  "map_of (note_positions (default_extractor demo_cap 500)) 21 = None
   \<and> is_key_lit (\<lambda>p. p) (default_extractor demo_cap 500)
        (\<lambda>y x. \<lparr>hsv_h = 60, hsv_s = 200, hsv_v = 200\<rparr>) 21 = (False, None)"
proof -
  have h: "map_of (note_positions (default_extractor demo_cap 500)) 21 = None"
    by (simp add: default_extractor_def default_note_positions_def)
  show ?thesis
    using h unknown_pitch_is_unlit [OF h] by simp
qed

text \<open>
  C4, as the code has it. The blue mask tests \<^verbatim>\<open>h >= 85\<close>: a pixel is blue-like exactly
  when its hue lies in the closed interval from 85 to 135 and saturation and value exceed
  50. A pixel with hue exactly 85 and qualifying saturation and value is counted by both
  masks, the green one and the blue one.
\<close>

theorem blue_mask_includes_hue_85:
  "(blue_mask p \<longleftrightarrow> 85 \<le> hsv_h p \<and> hsv_h p \<le> 135 \<and> 50 < hsv_s p \<and> 50 < hsv_v p)
   \<and> (hsv_h p = 85 \<and> 50 < hsv_s p \<and> 50 < hsv_v p \<longrightarrow> green_mask p \<and> blue_mask p)"
  by (simp add: blue_mask_def green_mask_def)

theorem blue_mask_includes_hue_85_witness:
  "hsv_h \<lparr>hsv_h = 85, hsv_s = 200, hsv_v = 200\<rparr> = 85
   \<and> (50 :: 8 word) < hsv_s \<lparr>hsv_h = 85, hsv_s = 200, hsv_v = 200\<rparr>
   \<and> (50 :: 8 word) < hsv_v \<lparr>hsv_h = 85, hsv_s = 200, hsv_v = 200\<rparr>
   \<and> green_mask \<lparr>hsv_h = 85, hsv_s = 200, hsv_v = 200\<rparr>
   \<and> blue_mask \<lparr>hsv_h = 85, hsv_s = 200, hsv_v = 200\<rparr>"
  using blue_mask_includes_hue_85 [of "\<lparr>hsv_h = 85, hsv_s = 200, hsv_v = 200\<rparr>"] by simp

text \<open>
  The claim as the specification states it (blue-like only above hue 85) fails at the
  pixel with hue 85, saturation 200 and value 200.
\<close>

theorem hue_85_is_blue_like:
  "blue_mask \<lparr>hsv_h = 85, hsv_s = 200, hsv_v = 200\<rparr>
   \<and> \<not> 85 < hsv_h \<lparr>hsv_h = 85, hsv_s = 200, hsv_v = 200\<rparr>"
  by (simp add: blue_mask_def)

text \<open>
  The verdict shows it: on \<open>tie_frame\<close> 14 of the 49 sampled pixels have hue 85 and one has
  hue 100. The green ratio 14/49 is below 0.3; the blue ratio counts the pixels of hue 85
  too, 15/49, and the key is lit for the right hand.
\<close>

lemma hue_85_counts_for_blue:
  "is_key_lit (\<lambda>p. p) (default_extractor demo_cap 500) tie_frame 60 = (True, Some Right)"
  by (simp add: is_key_lit_def default_extractor_def demo_cap_def default_note_positions_def
      tie_frame_def region_of_def demo_gray_def green_mask_def blue_mask_def)

section \<open>One step of the debounce state machine\<close>

text \<open>
  C7. The key is Pressed, the verdict is unlit and the incremented count reaches the
  debounce threshold: the key goes Idle, and a NoteEvent is appended exactly when the
  computed duration (the back-dated end time minus the start time) is at least the
  minimum duration; otherwise the list of notes is unchanged.
\<close>

theorem release_emits_iff_long_enough:
  assumes "active st" and "start_time st = Some t0"
    and "release_debounce_frames ex \<le> unlit_count st + 1" and "fps ex \<noteq> 0"
  shows "update_key ex min_duration time_sec midi (False, hnd) (st, all_notes) =
           Inr (st\<lparr>unlit_count := unlit_count st + 1, active := False, start_time := None\<rparr>,
                if min_duration \<le> time_sec - of_int (release_debounce_frames ex - 1) / fps ex - t0
                then all_notes @ [\<lparr>note_midi = midi, note_start = t0,
                       note_duration = time_sec - of_int (release_debounce_frames ex - 1) / fps ex - t0,
                       note_hand = state_hand st\<rparr>]
                else all_notes)"
  using assms by (simp add: update_key_def Let_def)

theorem release_emits_iff_long_enough_witness:
  "active \<lparr>active = True, start_time = Some 0, state_hand = Some Left, unlit_count = 1\<rparr>
   \<and> start_time \<lparr>active = True, start_time = Some 0, state_hand = Some Left, unlit_count = 1\<rparr> = Some 0
   \<and> release_debounce_frames (default_extractor demo_cap 500)
       \<le> unlit_count \<lparr>active = True, start_time = Some 0, state_hand = Some Left, unlit_count = 1\<rparr> + 1
   \<and> fps (default_extractor demo_cap 500) \<noteq> 0
   \<and> update_key (default_extractor demo_cap 500) (3 / 100) (2 / 15) 60 (False, None)
         (\<lparr>active = True, start_time = Some 0, state_hand = Some Left, unlit_count = 1\<rparr>, []) =
       Inr (\<lparr>active = False, start_time = None, state_hand = Some Left, unlit_count = 2\<rparr>,
            [\<lparr>note_midi = 60, note_start = 0, note_duration = 1 / 10, note_hand = Some Left\<rparr>])"
  using release_emits_iff_long_enough
    [of "\<lparr>active = True, start_time = Some 0, state_hand = Some Left, unlit_count = 1\<rparr>" 0
        "default_extractor demo_cap 500" "3 / 100" "2 / 15" 60 None "[]"]
  by (simp add: default_extractor_def demo_cap_def)

section \<open>The loop nest, key by key\<close>

lemma update_key_notes_of:
  "update_key ex md t k v (st, ns) = Inr (st', ns') \<Longrightarrow>
   update_key ex md t k v (st, notes_of k ns) = Inr (st', notes_of k ns')"
  by (cases v) (auto simp: update_key_def notes_of_def Let_def split: if_splits option.splits)

lemma update_key_notes_other:
  "update_key ex md t k v (st, ns) = Inr (st', ns') \<Longrightarrow> k' \<noteq> k \<Longrightarrow> notes_of k' ns' = notes_of k' ns"
  by (cases v) (auto simp: update_key_def notes_of_def Let_def split: if_splits option.splits)

lemma process_key_Inr:
  assumes "process_key c ex md t f k (S, ns) = Inr (S', ns')"
  shows "\<exists>st'. update_key ex md t k (is_key_lit c ex f k) (state_of S k, ns) = Inr (st', ns')
              \<and> S' = AList.update k st' S"
  using assms
  by (auto simp: process_key_def Let_def dict_get_def state_of_def update_conv' bind_e_Inr_iff
      split: if_splits option.splits)

lemma state_of_update: "state_of (AList.update a st S) k = (if k = a then st else state_of S k)"
  by (simp add: state_of_def update_conv')

lemma key_loop_key:
  assumes "for_e ks (process_key c ex md t f) (S, ns) = Inr (S', ns')" and "distinct ks"
  shows "(k \<in> set ks \<longrightarrow>
            (\<exists>st'. update_key ex md t k (is_key_lit c ex f k) (state_of S k, notes_of k ns)
                      = Inr (st', notes_of k ns') \<and> map_of S' k = Some st'))
       \<and> (k \<notin> set ks \<longrightarrow> map_of S' k = map_of S k \<and> notes_of k ns' = notes_of k ns)"
  using assms
proof (induction ks arbitrary: S ns)
  case Nil
  then show ?case by simp
next
  case (Cons a as)
  from Cons.prems(1) obtain S1 ns1 where
    step: "process_key c ex md t f a (S, ns) = Inr (S1, ns1)"
    and rest: "for_e as (process_key c ex md t f) (S1, ns1) = Inr (S', ns')"
    by (auto split: sum.splits)
  from process_key_Inr [OF step] obtain st1 where
    upd: "update_key ex md t a (is_key_lit c ex f a) (state_of S a, ns) = Inr (st1, ns1)"
    and S1: "S1 = AList.update a st1 S"
    by blast
  from Cons.prems(2) have dist: "distinct as" and notin: "a \<notin> set as"
    by simp_all
  note IH = Cons.IH [OF rest dist]
  show ?case
  proof (cases "k = a")
    case True
    with notin IH have "map_of S' k = map_of S1 k" "notes_of k ns' = notes_of k ns1"
      by simp_all
    with True S1 update_key_notes_of [OF upd] show ?thesis
      by (simp add: update_conv')
  next
    case False
    have same: "state_of S1 k = state_of S k" "map_of S1 k = map_of S k"
      using False S1 by (simp_all add: state_of_update update_conv')
    have others: "notes_of k ns1 = notes_of k ns"
      using update_key_notes_other [OF upd False] .
    from IH False same others show ?thesis
      by simp
  qed
qed

lemma run_key_Nil: "run_key ex md k [] s = Inr s"
  by (simp add: run_key_def)

lemma run_key_Cons:
  "run_key ex md k ((t, v) # vs) s =
     (case update_key ex md t k v s of Inl e \<Rightarrow> Inl e | Inr s' \<Rightarrow> run_key ex md k vs s')"
  by (simp add: run_key_def split: sum.splits)

lemma frame_loop_key:
  assumes "frame_loop c ex md frames n (S, ns) = Inr (S', ns')"
    and "distinct (map fst (note_positions ex))"
  shows "(k \<in> fst ` set (note_positions ex) \<longrightarrow>
          run_key ex md k (verdicts c ex k frames n) (state_of S k, notes_of k ns) =
            Inr (state_of S' k, notes_of k ns'))
       \<and> (k \<notin> fst ` set (note_positions ex) \<longrightarrow> map_of S' k = map_of S k \<and> notes_of k ns' = notes_of k ns)"
  using assms(1)
proof (induction frames arbitrary: n S ns)
  case Nil
  then show ?case by (simp add: run_key_Nil)
next
  case (Cons f fs)
  from Cons.prems obtain S1 ns1 where
    step: "for_e (map fst (note_positions ex)) (process_key c ex md (of_int n / fps ex) f) (S, ns) = Inr (S1, ns1)"
    and rest: "frame_loop c ex md fs (n + 1) (S1, ns1) = Inr (S', ns')"
    by (auto split: if_splits sum.splits)
  note K = key_loop_key [OF step assms(2), of k]
  note IH = Cons.IH [OF rest]
  show ?case
  proof (cases "k \<in> fst ` set (note_positions ex)")
    case True
    then have "k \<in> set (map fst (note_positions ex))" by simp
    with K obtain st1 where
      u: "update_key ex md (of_int n / fps ex) k (is_key_lit c ex f k) (state_of S k, notes_of k ns) = Inr (st1, notes_of k ns1)"
      and m: "map_of S1 k = Some st1"
      by blast
    from m have "state_of S1 k = st1" by (simp add: state_of_def)
    with IH True u show ?thesis
      by (simp add: run_key_Cons)
  next
    case False
    then have "k \<notin> set (map fst (note_positions ex))" by simp
    with K IH False show ?thesis by simp
  qed
qed


text \<open>Keys of the state dict stay distinct.\<close>

lemma process_key_distinct:
  "process_key c ex md t f k (S, ns) = Inr (S', ns') \<Longrightarrow> distinct (map fst S) \<Longrightarrow> distinct (map fst S')"
  by (auto dest!: process_key_Inr simp: distinct_update)

lemma frame_loop_distinct:
  assumes "frame_loop c ex md frames n (S, ns) = Inr (S', ns')" and "distinct (map fst S)"
  shows "distinct (map fst S')"
  using assms
proof (induction frames arbitrary: n S ns)
  case Nil
  then show ?case by simp
next
  case (Cons f fs)
  from Cons.prems(1) obtain S1 ns1 where
    step: "for_e (map fst (note_positions ex)) (process_key c ex md (of_int n / fps ex) f) (S, ns) = Inr (S1, ns1)"
    and rest: "frame_loop c ex md fs (n + 1) (S1, ns1) = Inr (S', ns')"
    by (auto split: if_splits sum.splits)
  have "distinct (map fst (fst (S1, ns1)))"
    by (rule for_e_invariant [OF step, where I = "\<lambda>s. distinct (map fst (fst s))"])
       (use Cons.prems(2) in \<open>auto dest: process_key_distinct\<close>)
  with Cons.IH [OF rest] show ?case by simp
qed

text \<open>The closing loop, seen from one key.\<close>

lemma close_key_append: "close_key ft md p ns = ns @ close_key ft md p []"
  by (cases p) (simp add: close_key_def split: option.splits)

lemma notes_of_close_key:
  "notes_of k (close_key ft md (k', st) []) = (if k' = k then close_key ft md (k, st) [] else [])"
  by (simp add: close_key_def notes_of_def split: option.splits)

lemma notes_of_append: "notes_of k (xs @ ys) = notes_of k xs @ notes_of k ys"
  by (simp add: notes_of_def)

lemma close_loop_key:
  assumes "distinct (map fst S)"
  shows "notes_of k (fold (close_key ft md) S ns) = notes_of k ns @ close_key ft md (k, state_of S k) []"
  using assms
proof (induction S arbitrary: ns)
  case Nil
  then show ?case by (simp add: state_of_def close_key_def new_state_def)
next
  case (Cons p S)
  obtain k' st where p: "p = (k', st)" by (cases p)
  from Cons.prems p have d: "distinct (map fst S)" and nin: "k' \<notin> fst ` set S"
    by simp_all
  have "notes_of k (fold (close_key ft md) (p # S) ns) =
        notes_of k (close_key ft md p ns) @ close_key ft md (k, state_of S k) []"
    using Cons.IH [OF d] by simp
  also have "notes_of k (close_key ft md p ns) = notes_of k ns @ notes_of k (close_key ft md p [])"
    by (subst close_key_append) (simp add: notes_of_append)
  finally have eq: "notes_of k (fold (close_key ft md) (p # S) ns) =
        notes_of k ns @ notes_of k (close_key ft md p []) @ close_key ft md (k, state_of S k) []"
    by simp
  show ?case
  proof (cases "k' = k")
    case True
    with nin have "map_of S k = None"
      by (simp add: map_of_eq_None_iff)
    then have "close_key ft md (k, state_of S k) [] = []"
      by (simp add: state_of_def close_key_def new_state_def)
    with eq p True show ?thesis
      by (simp add: notes_of_close_key state_of_def)
  next
    case False
    with eq p show ?thesis
      by (simp add: notes_of_close_key state_of_def)
  qed
qed

text \<open>The whole run, seen from one key.\<close>

lemma extract_notes_Inr:
  assumes "extract_notes c ex frames skip md = Inr notes"
  shows "\<exists>n0 S ns. int_of_product skip (fps ex) = Inr n0
          \<and> frame_loop c ex md frames n0 ([], []) = Inr (S, ns)
          \<and> fps ex \<noteq> 0
          \<and> notes = fold (close_key (of_int (total_frames ex) / fps ex) md) S ns"
  using assms
  by (auto simp: extract_notes_def bind_e_Inr_iff split: if_splits)

lemma extract_notes_key:
  assumes "extract_notes c ex frames skip md = Inr notes"
    and "distinct (map fst (note_positions ex))"
    and "k \<in> fst ` set (note_positions ex)"
  shows "\<exists>n0 st out. int_of_product skip (fps ex) = Inr n0
           \<and> run_key ex md k (verdicts c ex k frames n0) (new_state, []) = Inr (st, out)
           \<and> notes_of k notes = out @ close_key (of_int (total_frames ex) / fps ex) md (k, st) []"
proof -
  from extract_notes_Inr [OF assms(1)] obtain n0 S ns where
    n0: "int_of_product skip (fps ex) = Inr n0"
    and loop: "frame_loop c ex md frames n0 ([], []) = Inr (S, ns)"
    and nts: "notes = fold (close_key (of_int (total_frames ex) / fps ex) md) S ns"
    by blast
  have d: "distinct (map fst S)"
    using frame_loop_distinct [OF loop] by simp
  have "run_key ex md k (verdicts c ex k frames n0) (state_of [] k, notes_of k [])
          = Inr (state_of S k, notes_of k ns)"
    using frame_loop_key [OF loop assms(2), of k] assms(3) by simp
  then have "run_key ex md k (verdicts c ex k frames n0) (new_state, [])
          = Inr (state_of S k, notes_of k ns)"
    by (simp add: state_of_def notes_of_def)
  moreover have "notes_of k notes = notes_of k ns @ close_key (of_int (total_frames ex) / fps ex) md (k, state_of S k) []"
    unfolding nts by (rule close_loop_key [OF d])
  ultimately show ?thesis using n0 by blast
qed

lemma extract_notes_other_key:
  assumes "extract_notes c ex frames skip md = Inr notes"
    and "distinct (map fst (note_positions ex))"
    and "k \<notin> fst ` set (note_positions ex)"
  shows "notes_of k notes = []"
proof -
  from extract_notes_Inr [OF assms(1)] obtain n0 S ns where
    loop: "frame_loop c ex md frames n0 ([], []) = Inr (S, ns)"
    and nts: "notes = fold (close_key (of_int (total_frames ex) / fps ex) md) S ns"
    by blast
  have d: "distinct (map fst S)"
    using frame_loop_distinct [OF loop] by simp
  from frame_loop_key [OF loop assms(2), of k] assms(3)
  have "map_of S k = None" "notes_of k ns = []"
    by (simp_all add: notes_of_def)
  then show ?thesis
    unfolding nts close_loop_key [OF d]
    by (simp add: state_of_def close_key_def new_state_def)
qed

text \<open>
  With a non-zero frame rate, when the two conversions to a frame number succeed and that
  of \<^verbatim>\<open>self.fps * 20\<close> is not zero, the run returns.
\<close>

lemma update_key_total:
  assumes "fps ex \<noteq> 0" and "wf_state st"
  shows "\<exists>st' ns'. update_key ex md t k v (st, ns) = Inr (st', ns') \<and> wf_state st'"
  using assms
  by (cases v) (auto simp: update_key_def wf_state_def Let_def split: option.splits)

lemma process_key_total:
  assumes "fps ex \<noteq> 0" and "wf_states S"
  shows "\<exists>S' ns'. process_key c ex md t f k (S, ns) = Inr (S', ns') \<and> wf_states S'"
proof -
  from assms(2) have "wf_state (state_of S k)"
    by (simp add: wf_states_def)
  from update_key_total [OF assms(1) this] obtain st' ns' where
    u: "update_key ex md t k (is_key_lit c ex f k) (state_of S k, ns) = Inr (st', ns')" and w: "wf_state st'"
    by blast
  have "process_key c ex md t f k (S, ns) = Inr (AList.update k st' S, ns')"
    using u by (auto simp: process_key_def Let_def dict_get_def state_of_def update_conv' split: option.splits)
  moreover have "wf_states (AList.update k st' S)"
    using assms(2) w by (simp add: wf_states_def state_of_update)
  ultimately show ?thesis by blast
qed

lemma frame_loop_total:
  assumes "fps ex \<noteq> 0" and "int_of_product (fps ex) 20 = Inr every" and "every \<noteq> 0"
    and "wf_states S"
  shows "\<exists>S' ns'. frame_loop c ex md frames n (S, ns) = Inr (S', ns') \<and> wf_states S'"
  using assms(4)
proof (induction frames arbitrary: n S ns)
  case Nil
  then show ?case by simp
next
  case (Cons f fs)
  have "\<exists>s'. for_e (map fst (note_positions ex)) (process_key c ex md (of_int n / fps ex) f) (S, ns) = Inr s'
          \<and> wf_states (fst s')"
  proof (rule for_e_total [where I = "\<lambda>s. wf_states (fst s)"])
    show "wf_states (fst (S, ns))" using Cons.prems by simp
  next
    fix a and s :: "key_state pydict \<times> note_event list" assume "wf_states (fst s)"
    then show "\<exists>s'. process_key c ex md (of_int n / fps ex) f a s = Inr s' \<and> wf_states (fst s')"
      using process_key_total [OF assms(1), of "fst s" c md "of_int n / fps ex" f a "snd s"]
      by (cases s) auto
  qed
  then obtain S1 ns1 where
    step: "for_e (map fst (note_positions ex)) (process_key c ex md (of_int n / fps ex) f) (S, ns) = Inr (S1, ns1)"
    and w: "wf_states S1"
    by auto
  from Cons.IH [OF w] obtain S' ns' where "frame_loop c ex md fs (n + 1) (S1, ns1) = Inr (S', ns')" "wf_states S'"
    by blast
  with step assms(1,2,3) show ?case by simp
qed

lemma wf_states_Nil: "wf_states []"
  by (simp add: wf_states_def state_of_def wf_state_def new_state_def)

lemma extract_notes_total:
  assumes "fps ex \<noteq> 0" and "int_of_product (fps ex) 20 = Inr every" and "every \<noteq> 0"
    and "int_of_product skip (fps ex) = Inr n0"
  shows "\<exists>notes. extract_notes c ex frames skip md = Inr notes"
proof -
  from frame_loop_total [OF assms(1,2,3) wf_states_Nil] obtain S ns where
    "frame_loop c ex md frames n0 ([], []) = Inr (S, ns)"
    by blast
  with assms(1,4) show ?thesis
    by (simp add: extract_notes_def)
qed

section \<open>Rounding to a double\<close>

text \<open>
  \<open>round_double\<close> returns a multiple of the spacing of the doubles around its argument
  that is at most half a spacing away from it.
\<close>

lemma pow2_pos: "0 < pow2 e"
  by (simp add: pow2_def)

lemma round_half_even_nearest: "\<bar>of_int (round_half_even y) - y\<bar> \<le> 1 / 2"
proof -
  have "rat_of_int \<lfloor>y\<rfloor> \<le> y" and "y < rat_of_int \<lfloor>y\<rfloor> + 1"
    by linarith+
  then show ?thesis
    by (simp add: round_half_even_def Let_def abs_le_iff)
qed

lemma round_double_error:
  assumes "round_double x = Some r"
  shows "\<bar>r - x\<bar> \<le> pow2 (max (binade \<bar>x\<bar>) (- 1022) - 52) / 2"
proof (cases "x = 0")
  case True
  with assms show ?thesis
    using pow2_pos [of "max (binade \<bar>x\<bar>) (- 1022) - 52"] by (simp add: round_double_def)
next
  case False
  let ?q = "pow2 (max (binade \<bar>x\<bar>) (- 1022) - 52)"
  have q: "0 < ?q" by (rule pow2_pos)
  from assms False have r: "r = of_int (round_half_even (x / ?q)) * ?q"
    by (simp add: round_double_def Let_def split: if_splits)
  have "r - x = (of_int (round_half_even (x / ?q)) - x / ?q) * ?q"
    using q by (simp add: r left_diff_distrib)
  then have "\<bar>r - x\<bar> = \<bar>of_int (round_half_even (x / ?q)) - x / ?q\<bar> * ?q"
    using q by (simp add: abs_mult)
  also have "\<dots> \<le> 1 / 2 * ?q"
    using q round_half_even_nearest [of "x / ?q"] by (simp only: mult_right_mono less_imp_le)
  finally show ?thesis by simp
qed

lemma pow2_neg: "0 \<le> e \<Longrightarrow> pow2 (- e) = 1 / 2 ^ nat e"
  by (cases "e = 0") (simp_all add: pow2_def)

lemma binade_bounds:
  assumes "0 < x"
  shows "pow2 (binade x) \<le> x \<and> x < pow2 (binade x + 1)"
proof (cases "1 \<le> x")
  case True
  let ?n = "\<lfloor>x\<rfloor>"
  let ?b = "bitlen ?n"
  from True have n: "0 < ?n" by simp
  from bitlen_bounds [OF n] have lo: "2 ^ nat (?b - 1) \<le> ?n" and hi: "?n < 2 ^ nat ?b"
    by simp_all
  from n have b: "1 \<le> ?b"
    by (simp add: bitlen_def floorlog_def)
  from lo have "(of_int (2 ^ nat (?b - 1)) :: rat) \<le> of_int ?n"
    by (simp only: of_int_le_iff)
  also have "\<dots> \<le> x" by simp
  finally have 1: "(2 :: rat) ^ nat (?b - 1) \<le> x" by simp
  from hi have "?n + 1 \<le> 2 ^ nat ?b" by simp
  then have "(of_int (?n + 1) :: rat) \<le> of_int (2 ^ nat ?b)"
    by (simp only: of_int_le_iff)
  moreover have "x < of_int (?n + 1)" by linarith
  ultimately have 2: "x < (2 :: rat) ^ nat ?b" by simp
  from True b 1 2 show ?thesis
    by (simp add: binade_def pow2_def)
next
  case False
  let ?m = "\<lceil>1 / x\<rceil> - 1"
  let ?b = "bitlen ?m"
  from False assms have "1 < 1 / x" by simp
  then have m: "0 < ?m" by linarith
  from bitlen_bounds [OF m] have lo: "2 ^ nat (?b - 1) \<le> ?m" and hi: "?m < 2 ^ nat ?b"
    by simp_all
  from m have b: "1 \<le> ?b"
    by (simp add: bitlen_def floorlog_def)
  have m1: "of_int ?m < 1 / x"
    by linarith
  from hi have "\<lceil>1 / x\<rceil> \<le> 2 ^ nat ?b" by simp
  then have "(of_int \<lceil>1 / x\<rceil> :: rat) \<le> of_int (2 ^ nat ?b)"
    by (simp only: of_int_le_iff)
  then have "(of_int \<lceil>1 / x\<rceil> :: rat) \<le> 2 ^ nat ?b"
    by simp
  moreover have "1 / x \<le> of_int \<lceil>1 / x\<rceil>"
    by (rule le_of_int_ceiling)
  ultimately have "1 / x \<le> 2 ^ nat ?b"
    by (rule order_trans [rotated])
  with assms have 1: "1 / 2 ^ nat ?b \<le> x"
    by (simp add: field_simps)
  from lo have "(of_int (2 ^ nat (?b - 1)) :: rat) \<le> of_int ?m"
    by (simp only: of_int_le_iff)
  with m1 have "2 ^ nat (?b - 1) < 1 / x" by simp
  with assms have 2: "x < 1 / 2 ^ nat (?b - 1)"
    by (simp add: field_simps)
  have "pow2 (- ?b) = 1 / 2 ^ nat ?b"
    using b by (simp add: pow2_neg)
  moreover have "pow2 (- ?b + 1) = 1 / 2 ^ nat (?b - 1)"
    using b pow2_neg [of "?b - 1"] by simp
  ultimately show ?thesis
    using False 1 2 by (simp add: binade_def)
qed

section \<open>Concrete frame numbers and frames\<close>

text \<open>
  Frame numbers the code computes. The decimal 4.1 is a double just below 4.1, and its
  product with 30 rounds to a double just below 123: reading starts at frame 122. The
  product of the double 0.7 and 30 rounds up to 21, where the exact product of the doubles
  is below 21.
\<close>

lemma bitlen_rec: "bitlen x = (if 0 < x then bitlen (x div 2) + 1 else 0)"
  by (rule compute_bitlen)

lemmas round_double_eval =
  round_double_def binade_def bitlen_rec round_half_even_def pow2_def Let_def floor_rat_numeral

lemma round_double_0: "round_double 0 = Some 0"
  by (simp add: round_double_def)

lemma round_double_20: "round_double 20 = Some 20"
  by (simp add: round_double_eval)

lemma round_double_25: "round_double 25 = Some 25"
  by (simp add: round_double_eval)

lemma round_double_30: "round_double 30 = Some 30"
  by (simp add: round_double_eval)

lemma round_double_half: "round_double (1 / 2) = Some (1 / 2)"
  by (simp add: round_double_eval)

lemma round_double_41: "round_double (41 / 10) = Some (4616189618054758 / 2 ^ 50)"
  by (simp add: round_double_eval)

lemma round_double_7: "round_double (7 / 10) = Some (6305039478318694 / 2 ^ 53)"
  by (simp add: round_double_eval)

lemma int_of_product_0_30: "int_of_product 0 30 = Inr 0"
  by (simp add: int_of_product_def round_double_0 round_double_30 trunc_def)

lemma int_of_product_30_20: "int_of_product 30 20 = Inr 600"
  by (simp add: int_of_product_def round_double_30 round_double_20 trunc_def)
     (simp add: round_double_eval trunc_def)

lemma int_of_product_25_20: "int_of_product 25 20 = Inr 500"
  by (simp add: int_of_product_def round_double_25 round_double_20 trunc_def)
     (simp add: round_double_eval trunc_def)

lemma int_of_product_half_25: "int_of_product (1 / 2) 25 = Inr 12"
  by (simp add: int_of_product_def round_double_25 round_double_half trunc_def)
     (simp add: round_double_eval trunc_def)

lemma int_of_product_41_30: "int_of_product (41 / 10) 30 = Inr 122"
  by (simp add: int_of_product_def round_double_41 round_double_30 trunc_def)
     (simp add: round_double_eval trunc_def)

lemma int_of_product_7_30: "int_of_product (7 / 10) 30 = Inr 21"
  by (simp add: int_of_product_def round_double_7 round_double_30 trunc_def)
     (simp add: round_double_eval trunc_def)

lemma int_of_product_Inr:
  assumes "int_of_product a b = Inr n"
  shows "\<exists>x y p. round_double a = Some x \<and> round_double b = Some y
           \<and> round_double (x * y) = Some p \<and> n = trunc p"
  using assms by (auto simp: int_of_product_def split: option.splits if_splits)

lemma default_keys_distinct: "distinct (map fst default_note_positions)"
  by (simp add: default_note_positions_def)

lemma default_distinct: "distinct (map fst (note_positions (default_extractor cap key_y)))"
  by (simp add: default_extractor_def default_keys_distinct)

lemma lit60_any:
  "cap_frame_width cap = 1276 \<Longrightarrow> cap_frame_height cap = 720 \<Longrightarrow>
   is_key_lit (\<lambda>p. p) (default_extractor cap 500) lit60_frame 60 = (True, Some Left)"
  by (simp add: is_key_lit_def default_extractor_def default_note_positions_def
      lit60_frame_def region_of_def demo_green_def demo_gray_def green_mask_def blue_mask_def)

lemma dark_any:
  "cap_frame_width cap = 1276 \<Longrightarrow> cap_frame_height cap = 720 \<Longrightarrow>
   is_key_lit (\<lambda>p. p) (default_extractor cap 500) dark_frame 60 = (False, None)"
  by (simp add: is_key_lit_def default_extractor_def default_note_positions_def
      dark_frame_def region_of_def demo_green_def demo_gray_def green_mask_def blue_mask_def)

lemma default_has_60_any: "60 \<in> fst ` set (note_positions (default_extractor cap key_y))"
  by (simp add: default_extractor_def default_note_positions_def)

section \<open>More invariants of the run\<close>

lemma update_key_wf:
  "update_key ex md t k v (st, ns) = Inr (st', ns') \<Longrightarrow> wf_state st \<Longrightarrow> wf_state st'"
  by (cases v) (auto simp: update_key_def wf_state_def Let_def split: if_splits option.splits)

lemma process_key_wf:
  assumes "process_key c ex md t f k (S, ns) = Inr (S', ns')" and "wf_states S"
  shows "wf_states S'"
proof -
  from process_key_Inr [OF assms(1)] obtain st' where
    u: "update_key ex md t k (is_key_lit c ex f k) (state_of S k, ns) = Inr (st', ns')"
    and S': "S' = AList.update k st' S"
    by blast
  from assms(2) have "wf_state (state_of S k)"
    by (simp add: wf_states_def)
  from update_key_wf [OF u this] assms(2) S' show ?thesis
    by (simp add: wf_states_def state_of_update)
qed

lemma frame_loop_wf:
  assumes "frame_loop c ex md frames n (S, ns) = Inr (S', ns')" and "wf_states S"
  shows "wf_states S'"
  using assms
proof (induction frames arbitrary: n S ns)
  case Nil
  then show ?case by simp
next
  case (Cons f fs)
  from Cons.prems(1) obtain S1 ns1 where
    step: "for_e (map fst (note_positions ex)) (process_key c ex md (of_int n / fps ex) f) (S, ns) = Inr (S1, ns1)"
    and rest: "frame_loop c ex md fs (n + 1) (S1, ns1) = Inr (S', ns')"
    by (auto split: if_splits sum.splits)
  have "wf_states (fst (S1, ns1))"
    by (rule for_e_invariant [OF step, where I = "\<lambda>s. wf_states (fst s)"])
       (use Cons.prems(2) in \<open>auto dest: process_key_wf\<close>)
  with Cons.IH [OF rest] show ?case by simp
qed

lemma verdicts_length: "length (verdicts c ex k frames n) = length frames"
  by (induction frames arbitrary: n) simp_all

lemma verdicts_Nil_iff: "verdicts c ex k frames n = [] \<longleftrightarrow> frames = []"
  by (cases frames) simp_all

lemma verdicts_last:
  "frames \<noteq> [] \<Longrightarrow> fst (last (verdicts c ex k frames n)) = of_int (n + int (length frames) - 1) / fps ex"
  by (induction frames arbitrary: n) (auto simp: verdicts_Nil_iff)

lemma final_time_after_last_frame:
  assumes "frames \<noteq> []" and "fps ex \<noteq> 0" and "total_frames ex = n + int (length frames)"
  shows "of_int (total_frames ex) / fps ex = fst (last (verdicts c ex k frames n)) + 1 / fps ex"
  using assms by (simp add: verdicts_last add_divide_distrib [symmetric])

section \<open>The debounce scenario of six frames\<close>

lemma six_frames_run:
  assumes "distinct (map fst (note_positions ex))" and "k \<in> fst ` set (note_positions ex)"
    and "fps ex = 30" and "release_debounce_frames ex = 2" and "min_duration \<le> 1 / 10"
    and "is_key_lit c ex f0 k = (True, h0)" and "is_key_lit c ex f1 k = (True, h1)"
    and "is_key_lit c ex f2 k = (True, h2)" and "is_key_lit c ex f3 k = (False, h3)"
    and "is_key_lit c ex f4 k = (False, h4)" and "is_key_lit c ex f5 k = (False, h5)"
  shows "\<exists>result. extract_notes c ex [f0, f1, f2, f3, f4, f5] 0 min_duration = Inr result
           \<and> notes_of k result = [\<lparr>note_midi = k, note_start = 0, note_duration = 1 / 10, note_hand = h0\<rparr>]"
proof -
  have nz: "fps ex \<noteq> 0" and e: "int_of_product (fps ex) 20 = Inr 600"
    and s: "int_of_product 0 (fps ex) = Inr 0"
    by (simp_all add: assms(3) int_of_product_30_20 int_of_product_0_30)
  have e0: "(600 :: int) \<noteq> 0"
    by simp
  from extract_notes_total [OF nz e e0 s] obtain result where
    run: "extract_notes c ex [f0, f1, f2, f3, f4, f5] 0 min_duration = Inr result"
    by blast
  from extract_notes_key [OF run assms(1,2)] s obtain st out where
    key: "run_key ex min_duration k (verdicts c ex k [f0, f1, f2, f3, f4, f5] 0) (new_state, []) = Inr (st, out)"
    and nts: "notes_of k result = out @ close_key (of_int (total_frames ex) / fps ex) min_duration (k, st) []"
    by auto
  have "run_key ex min_duration k (verdicts c ex k [f0, f1, f2, f3, f4, f5] 0) (new_state, [])
      = Inr (\<lparr>active = False, start_time = None, state_hand = h0, unlit_count = 3\<rparr>,
             [\<lparr>note_midi = k, note_start = 0, note_duration = 1 / 10, note_hand = h0\<rparr>])"
    using assms(3-11)
    by (simp add: run_key_def update_key_def new_state_def)
  with key have "st = \<lparr>active = False, start_time = None, state_hand = h0, unlit_count = 3\<rparr>"
    and "out = [\<lparr>note_midi = k, note_start = 0, note_duration = 1 / 10, note_hand = h0\<rparr>]"
    by simp_all
  with nts have "notes_of k result = [\<lparr>note_midi = k, note_start = 0, note_duration = 1 / 10, note_hand = h0\<rparr>]"
    by (simp add: close_key_def)
  with run show ?thesis
    by simp
qed

lemma demo_run:
  "\<exists>result. extract_notes (\<lambda>p. p) (default_extractor demo_cap 500)
       [lit60_frame, lit60_frame, lit60_frame, dark_frame, dark_frame, dark_frame] 0 (3 / 100) = Inr result
     \<and> \<lparr>note_midi = 60, note_start = 0, note_duration = 1 / 10, note_hand = Some Left\<rparr> \<in> set result"
proof -
  have f: "fps (default_extractor demo_cap 500) = 30"
    and r: "release_debounce_frames (default_extractor demo_cap 500) = 2"
    by (simp_all add: default_extractor_def demo_cap_def)
  have m: "(3 / 100 :: rat) \<le> 1 / 10"
    by simp
  have l: "is_key_lit (\<lambda>p. p) (default_extractor demo_cap 500) lit60_frame 60 = (True, Some Left)"
    by (rule lit60_any) (simp_all add: demo_cap_def)
  have u: "is_key_lit (\<lambda>p. p) (default_extractor demo_cap 500) dark_frame 60 = (False, None)"
    by (rule dark_any) (simp_all add: demo_cap_def)
  from six_frames_run [OF default_distinct default_has_60_any f r m l l l u u u]
  obtain result where run: "extract_notes (\<lambda>p. p) (default_extractor demo_cap 500)
       [lit60_frame, lit60_frame, lit60_frame, dark_frame, dark_frame, dark_frame] 0 (3 / 100) = Inr result"
    and one: "notes_of 60 result = [\<lparr>note_midi = 60, note_start = 0, note_duration = 1 / 10, note_hand = Some Left\<rparr>]"
    by blast
  from one have "\<lparr>note_midi = 60, note_start = 0, note_duration = 1 / 10, note_hand = Some Left\<rparr> \<in> set (notes_of 60 result)"
    by simp
  then have "\<lparr>note_midi = 60, note_start = 0, note_duration = 1 / 10, note_hand = Some Left\<rparr> \<in> set result"
    by (simp add: notes_of_def)
  with run show ?thesis by blast
qed

text \<open>
  C3. A key with a geometry entry sees the verdicts lit, lit, lit, unlit, unlit, unlit on
  six frames at 30 frames per second, read from frame 0 (no skip), with a minimum duration
  of at most a tenth of a second (the default is 0.03). The run returns, and among the
  notes it returns exactly one has this pitch: it starts at 0, carries the hand of the
  first lit frame, and its end time (start plus duration) is the time of the frame on
  which the unlit count reaches 2, frame 4, minus \<open>(2 - 1) / 30\<close>, which is the time of
  the first unlit frame, frame 3.
\<close>

theorem debounce_six_frames:
  assumes "distinct (map fst (note_positions ex))" and "k \<in> fst ` set (note_positions ex)"
    and "fps ex = 30" and "release_debounce_frames ex = 2" and "min_duration \<le> 1 / 10"
    and "is_key_lit c ex f0 k = (True, h0)" and "is_key_lit c ex f1 k = (True, h1)"
    and "is_key_lit c ex f2 k = (True, h2)" and "is_key_lit c ex f3 k = (False, h3)"
    and "is_key_lit c ex f4 k = (False, h4)" and "is_key_lit c ex f5 k = (False, h5)"
  shows "\<exists>result n. extract_notes c ex [f0, f1, f2, f3, f4, f5] 0 min_duration = Inr result
           \<and> notes_of k result = [n]
           \<and> note_midi n = k \<and> note_hand n = h0 \<and> note_start n = 0
           \<and> note_start n + note_duration n = of_int 4 / fps ex - (2 - 1) / fps ex
           \<and> note_start n + note_duration n = of_int 3 / fps ex"
proof -
  from six_frames_run [OF assms] obtain result where
    "extract_notes c ex [f0, f1, f2, f3, f4, f5] 0 min_duration = Inr result"
    "notes_of k result = [\<lparr>note_midi = k, note_start = 0, note_duration = 1 / 10, note_hand = h0\<rparr>]"
    by blast
  with assms(3) show ?thesis
    by simp
qed

theorem debounce_six_frames_witness:
  "distinct (map fst (note_positions (default_extractor demo_cap 500)))
   \<and> 60 \<in> fst ` set (note_positions (default_extractor demo_cap 500))
   \<and> fps (default_extractor demo_cap 500) = 30
   \<and> release_debounce_frames (default_extractor demo_cap 500) = 2
   \<and> (3 / 100 :: rat) \<le> 1 / 10
   \<and> is_key_lit (\<lambda>p. p) (default_extractor demo_cap 500) lit60_frame 60 = (True, Some Left)
   \<and> is_key_lit (\<lambda>p. p) (default_extractor demo_cap 500) dark_frame 60 = (False, None)
   \<and> (\<exists>result n. extract_notes (\<lambda>p. p) (default_extractor demo_cap 500)
            [lit60_frame, lit60_frame, lit60_frame, dark_frame, dark_frame, dark_frame] 0 (3 / 100) = Inr result
           \<and> notes_of 60 result = [n]
           \<and> note_midi n = 60 \<and> note_hand n = Some Left \<and> note_start n = 0
           \<and> note_start n + note_duration n = of_int 4 / fps (default_extractor demo_cap 500)
                 - (2 - 1) / fps (default_extractor demo_cap 500)
           \<and> note_start n + note_duration n = of_int 3 / fps (default_extractor demo_cap 500))"
proof -
  have f: "fps (default_extractor demo_cap 500) = 30"
    and r: "release_debounce_frames (default_extractor demo_cap 500) = 2"
    by (simp_all add: default_extractor_def demo_cap_def)
  have m: "(3 / 100 :: rat) \<le> 1 / 10"
    by simp
  have l: "is_key_lit (\<lambda>p. p) (default_extractor demo_cap 500) lit60_frame 60 = (True, Some Left)"
    by (rule lit60_any) (simp_all add: demo_cap_def)
  have u: "is_key_lit (\<lambda>p. p) (default_extractor demo_cap 500) dark_frame 60 = (False, None)"
    by (rule dark_any) (simp_all add: demo_cap_def)
  show ?thesis
    using debounce_six_frames [OF default_distinct default_has_60_any f r m l l l u u u]
      default_distinct [of demo_cap 500] default_has_60_any [of demo_cap 500] f r l u
    by simp
qed

section \<open>The end of the stream\<close>

text \<open>
  C2, as the code has it. The frame loop, started at the frame number the skip offset
  gives, ends with a key still Pressed. Then the key has a start time, the run returns, and the closing loop adds exactly one NoteEvent for the
  key when its duration reaches the minimum duration, and none otherwise. The end time
  of that note (start plus duration) is \<^verbatim>\<open>total_frames / fps\<close>, the length of the video as
  the capture reports it; by lemma \<open>final_time_after_last_frame\<close> that is one frame period
  after the time of the last frame when the reported count is the number of that frame
  plus one.
\<close>

theorem pressed_key_is_closed_at_total_frames:
  assumes "int_of_product skip (fps ex) = Inr n0"
    and "frame_loop c ex md frames n0 ([], []) = Inr (S, ns)"
    and "map_of S k = Some st" and "active st" and "fps ex \<noteq> 0"
  shows "\<exists>t0 result. start_time st = Some t0
           \<and> extract_notes c ex frames skip md = Inr result
           \<and> notes_of k result = notes_of k ns @
                (if md \<le> of_int (total_frames ex) / fps ex - t0
                 then [\<lparr>note_midi = k, note_start = t0,
                        note_duration = of_int (total_frames ex) / fps ex - t0,
                        note_hand = state_hand st\<rparr>]
                 else [])"
proof -
  from frame_loop_wf [OF assms(2) wf_states_Nil] have "wf_state (state_of S k)"
    by (simp add: wf_states_def)
  with assms(3,4) obtain t0 where t0: "start_time st = Some t0"
    by (auto simp: wf_state_def state_of_def)
  have d: "distinct (map fst S)"
    using frame_loop_distinct [OF assms(2)] by simp
  have run: "extract_notes c ex frames skip md =
      Inr (fold (close_key (of_int (total_frames ex) / fps ex) md) S ns)"
    using assms(1,2,5) by (simp add: extract_notes_def)
  have "notes_of k (fold (close_key (of_int (total_frames ex) / fps ex) md) S ns)
      = notes_of k ns @ close_key (of_int (total_frames ex) / fps ex) md (k, st) []"
    using close_loop_key [OF d, of k] assms(3) by (simp add: state_of_def)
  with t0 assms(4) run show ?thesis
    by (simp add: close_key_def)
qed

theorem pressed_key_is_closed_at_total_frames_witness:
  "\<exists>S ns st. int_of_product 0 (fps (default_extractor (demo_cap\<lparr>cap_frame_count := 3\<rparr>) 500)) = Inr 0
     \<and> frame_loop (\<lambda>p. p) (default_extractor (demo_cap\<lparr>cap_frame_count := 3\<rparr>) 500) (3 / 100)
        [lit60_frame, lit60_frame, lit60_frame] 0 ([], []) = Inr (S, ns)
     \<and> map_of S 60 = Some st \<and> active st
     \<and> fps (default_extractor (demo_cap\<lparr>cap_frame_count := 3\<rparr>) 500) \<noteq> 0
     \<and> (\<exists>t0 result. start_time st = Some t0
           \<and> extract_notes (\<lambda>p. p) (default_extractor (demo_cap\<lparr>cap_frame_count := 3\<rparr>) 500)
                [lit60_frame, lit60_frame, lit60_frame] 0 (3 / 100) = Inr result
           \<and> notes_of 60 result = notes_of 60 ns @
                (if 3 / 100 \<le> of_int (total_frames (default_extractor (demo_cap\<lparr>cap_frame_count := 3\<rparr>) 500))
                       / fps (default_extractor (demo_cap\<lparr>cap_frame_count := 3\<rparr>) 500) - t0
                 then [\<lparr>note_midi = 60, note_start = t0,
                        note_duration = of_int (total_frames (default_extractor (demo_cap\<lparr>cap_frame_count := 3\<rparr>) 500))
                           / fps (default_extractor (demo_cap\<lparr>cap_frame_count := 3\<rparr>) 500) - t0,
                        note_hand = state_hand st\<rparr>]
                 else []))"
proof -
  let ?ex = "default_extractor (demo_cap\<lparr>cap_frame_count := 3\<rparr>) 500"
  let ?fs = "[lit60_frame, lit60_frame, lit60_frame]"
  have f: "fps ?ex = 30" and r: "release_debounce_frames ?ex = 2"
    by (simp_all add: default_extractor_def demo_cap_def)
  have l: "is_key_lit (\<lambda>p. p) ?ex lit60_frame 60 = (True, Some Left)"
    by (rule lit60_any) (simp_all add: demo_cap_def)
  have nz: "fps ?ex \<noteq> 0" and e: "int_of_product (fps ?ex) 20 = Inr 600"
    and s: "int_of_product 0 (fps ?ex) = Inr 0"
    by (simp_all add: f int_of_product_30_20 int_of_product_0_30)
  have e0: "(600 :: int) \<noteq> 0"
    by simp
  from frame_loop_total [OF nz e e0 wf_states_Nil] obtain S ns where
    loop: "frame_loop (\<lambda>p. p) ?ex (3 / 100) ?fs 0 ([], []) = Inr (S, ns)"
    by blast
  from frame_loop_key [OF loop default_distinct, of 60] default_has_60_any
  have "run_key ?ex (3 / 100) 60 (verdicts (\<lambda>p. p) ?ex 60 ?fs 0) (state_of [] 60, notes_of 60 [])
      = Inr (state_of S 60, notes_of 60 ns)"
    by simp
  moreover have "run_key ?ex (3 / 100) 60 (verdicts (\<lambda>p. p) ?ex 60 ?fs 0) (state_of [] 60, notes_of 60 [])
      = Inr (\<lparr>active = True, start_time = Some 0, state_hand = Some Left, unlit_count = 0\<rparr>, [])"
    using f r l by (simp add: run_key_def update_key_def new_state_def state_of_def notes_of_def)
  ultimately have st: "state_of S 60 = \<lparr>active = True, start_time = Some 0, state_hand = Some Left, unlit_count = 0\<rparr>"
    by simp
  then have m: "map_of S 60 = Some (state_of S 60)"
    by (cases "map_of S 60") (simp_all add: state_of_def new_state_def)
  have a: "active (state_of S 60)"
    using st by simp
  from pressed_key_is_closed_at_total_frames [OF s loop m a nz] s loop m a nz show ?thesis
    by blast
qed

text \<open>
  The claim as the specification states it (the end time is the final frame's time)
  fails on three frames at 30 frames per second that all light pitch 60, in a video
  reported as three frames long: the last frame has time 2/30, the note ends at 3/30.
\<close>

theorem all_lit_note_ends_after_last_frame:
  "map_sum (\<lambda>e. e) (notes_of 60)
     (extract_notes (\<lambda>p. p) (default_extractor (demo_cap\<lparr>cap_frame_count := 3\<rparr>) 500)
        [lit60_frame, lit60_frame, lit60_frame] 0 (3 / 100))
     = Inr [\<lparr>note_midi = 60, note_start = 0, note_duration = 1 / 10, note_hand = Some Left\<rparr>]
   \<and> fst (last (verdicts (\<lambda>p. p) (default_extractor (demo_cap\<lparr>cap_frame_count := 3\<rparr>) 500) 60
        [lit60_frame, lit60_frame, lit60_frame] 0)) = 1 / 15
   \<and> note_start \<lparr>note_midi = 60, note_start = 0, note_duration = 1 / 10, note_hand = Some Left\<rparr>
        + note_duration \<lparr>note_midi = 60, note_start = 0, note_duration = 1 / 10, note_hand = Some Left\<rparr>
      \<noteq> (1 / 15 :: rat)"
proof -
  let ?ex = "default_extractor (demo_cap\<lparr>cap_frame_count := 3\<rparr>) 500"
  let ?fs = "[lit60_frame, lit60_frame, lit60_frame]"
  have f: "fps ?ex = 30" and tf: "total_frames ?ex = 3" and r: "release_debounce_frames ?ex = 2"
    by (simp_all add: default_extractor_def demo_cap_def)
  have d: "distinct (map fst (note_positions ?ex))"
    by (simp add: default_extractor_def default_keys_distinct)
  have k: "60 \<in> fst ` set (note_positions ?ex)"
    by (simp add: default_extractor_def default_note_positions_def)
  have nz: "fps ?ex \<noteq> 0" and e: "int_of_product (fps ?ex) 20 = Inr 600"
    and s: "int_of_product 0 (fps ?ex) = Inr 0"
    by (simp_all add: f int_of_product_30_20 int_of_product_0_30)
  have e0: "(600 :: int) \<noteq> 0"
    by simp
  from extract_notes_total [OF nz e e0 s] obtain result where
    run: "extract_notes (\<lambda>p. p) ?ex ?fs 0 (3 / 100) = Inr result"
    by blast
  from extract_notes_key [OF run d k] s obtain st out where
    key: "run_key ?ex (3 / 100) 60 (verdicts (\<lambda>p. p) ?ex 60 ?fs 0) (new_state, []) = Inr (st, out)"
    and nts: "notes_of 60 result = out @ close_key (of_int (total_frames ?ex) / fps ?ex) (3 / 100) (60, st) []"
    by auto
  have "run_key ?ex (3 / 100) 60 (verdicts (\<lambda>p. p) ?ex 60 ?fs 0) (new_state, [])
      = Inr (\<lparr>active = True, start_time = Some 0, state_hand = Some Left, unlit_count = 0\<rparr>, [])"
    using f r lit60_any [of "demo_cap\<lparr>cap_frame_count := 3\<rparr>"]
    by (simp add: demo_cap_def run_key_def update_key_def new_state_def)
  with key have "st = \<lparr>active = True, start_time = Some 0, state_hand = Some Left, unlit_count = 0\<rparr>"
    and "out = []"
    by simp_all
  with nts f tf have "notes_of 60 result = [\<lparr>note_midi = 60, note_start = 0, note_duration = 1 / 10, note_hand = Some Left\<rparr>]"
    by (simp add: close_key_def)
  with run f show ?thesis
    by simp
qed

section \<open>Bounds on the notes of a run\<close>

lemma update_key_starts:
  assumes "update_key ex md t k v (st, ns) = Inr (st', ns')" and "lo \<le> t"
    and "\<forall>t0. start_time st = Some t0 \<longrightarrow> lo \<le> t0"
    and "\<forall>n\<in>set ns. lo \<le> note_start n \<and> md \<le> note_duration n"
  shows "(\<forall>t0. start_time st' = Some t0 \<longrightarrow> lo \<le> t0)
       \<and> (\<forall>n\<in>set ns'. lo \<le> note_start n \<and> md \<le> note_duration n)"
  using assms
  by (cases v) (auto simp: update_key_def Let_def split: if_splits option.splits)

lemma process_key_starts:
  assumes "process_key c ex md t f k s = Inr s'" and "lo \<le> t" and "starts_from lo md s"
  shows "starts_from lo md s'"
proof -
  obtain S ns S' ns' where s: "s = (S, ns)" "s' = (S', ns')"
    by (cases s, cases s') auto
  from process_key_Inr [OF assms(1) [unfolded s]] obtain st' where
    u: "update_key ex md t k (is_key_lit c ex f k) (state_of S k, ns) = Inr (st', ns')"
    and S': "S' = AList.update k st' S"
    by blast
  from assms(3) s have a: "\<forall>t0. start_time (state_of S k) = Some t0 \<longrightarrow> lo \<le> t0"
    and b: "\<forall>n\<in>set ns. lo \<le> note_start n \<and> md \<le> note_duration n"
    by (auto simp: starts_from_def)
  from update_key_starts [OF u assms(2) a b] assms(3) s S' show ?thesis
    by (auto simp: starts_from_def state_of_update)
qed

lemma frame_loop_starts:
  assumes "frame_loop c ex md frames n s = Inr s'" and "0 < fps ex"
    and "lo \<le> of_int n / fps ex" and "starts_from lo md s"
  shows "starts_from lo md s'"
  using assms(1,3,4)
proof (induction frames arbitrary: n s)
  case Nil
  then show ?case by simp
next
  case (Cons f fs)
  from Cons.prems(1) obtain s1 where
    step: "for_e (map fst (note_positions ex)) (process_key c ex md (of_int n / fps ex) f) s = Inr s1"
    and rest: "frame_loop c ex md fs (n + 1) s1 = Inr s'"
    by (auto split: if_splits sum.splits)
  have s1: "starts_from lo md s1"
    by (rule for_e_invariant [OF step, where I = "starts_from lo md"])
       (use Cons.prems(2,3) in \<open>auto intro: process_key_starts\<close>)
  have "of_int n / fps ex \<le> of_int (n + 1) / fps ex"
    using assms(2) by (simp add: divide_right_mono)
  with Cons.prems(2) have "lo \<le> of_int (n + 1) / fps ex"
    by simp
  from Cons.IH [OF rest this s1] show ?case .
qed

lemma close_loop_set:
  "n \<in> set (fold (close_key ft md) S ns) \<Longrightarrow>
     n \<in> set ns \<or> (\<exists>p\<in>set S. n \<in> set (close_key ft md p []))"
proof (induction S arbitrary: ns)
  case Nil
  then show ?case by simp
next
  case (Cons p S)
  from Cons.prems have "n \<in> set (fold (close_key ft md) S (close_key ft md p ns))"
    by simp
  from Cons.IH [OF this] show ?case
    by (subst (asm) close_key_append) auto
qed

lemma close_key_set:
  "n \<in> set (close_key ft md (k, st) []) \<Longrightarrow>
     active st \<and> start_time st = Some (note_start n) \<and> md \<le> note_duration n
     \<and> note_hand n = state_hand st \<and> note_midi n = k"
  by (auto simp: close_key_def split: option.splits if_splits)

lemma state_of_member: "distinct (map fst S) \<Longrightarrow> (k, st) \<in> set S \<Longrightarrow> state_of S k = st"
  by (simp add: state_of_def)

lemma trunc_gt: "x - 1 < of_int (trunc x)"
  by (simp add: trunc_def) linarith

lemma run_bounds:
  assumes "extract_notes c ex frames skip md = Inr result" and "0 < fps ex" and "n \<in> set result"
  shows "\<exists>n0. int_of_product skip (fps ex) = Inr n0
           \<and> of_int n0 / fps ex \<le> note_start n \<and> md \<le> note_duration n"
proof -
  from extract_notes_Inr [OF assms(1)] obtain n0 S ns where
    n0: "int_of_product skip (fps ex) = Inr n0"
    and loop: "frame_loop c ex md frames n0 ([], []) = Inr (S, ns)"
    and res: "result = fold (close_key (of_int (total_frames ex) / fps ex) md) S ns"
    by blast
  let ?lo = "of_int n0 / fps ex"
  have init: "starts_from ?lo md ([], [])"
    by (simp add: starts_from_def state_of_def new_state_def)
  have inv: "starts_from ?lo md (S, ns)"
    by (rule frame_loop_starts [OF loop assms(2) _ init]) simp
  have d: "distinct (map fst S)"
    using frame_loop_distinct [OF loop] by simp
  have "?lo \<le> note_start n \<and> md \<le> note_duration n"
    using close_loop_set [OF assms(3) [unfolded res]]
  proof
    assume "n \<in> set ns"
    with inv show ?thesis by (simp add: starts_from_def)
  next
    assume "\<exists>p\<in>set S. n \<in> set (close_key (of_int (total_frames ex) / fps ex) md p [])"
    then obtain k st where p: "(k, st) \<in> set S"
      and m: "n \<in> set (close_key (of_int (total_frames ex) / fps ex) md (k, st) [])"
      by auto
    from close_key_set [OF m] have st: "start_time st = Some (note_start n)" and du: "md \<le> note_duration n"
      by simp_all
    from state_of_member [OF d p] st inv have "?lo \<le> note_start n"
      by (auto simp: starts_from_def)
    with du show ?thesis by simp
  qed
  with n0 show ?thesis by blast
qed

text \<open>
  C6, as the code has it. With a positive frame rate, a run that returns has computed a
  start frame \<^verbatim>\<open>int(skip_seconds * fps)\<close>, the truncation of the product \<open>p\<close> of the two
  doubles rounded to a double. Every NoteEvent of the run starts no earlier than the time
  of that frame, the first one read, which is later than \<open>(p - 1) / fps\<close> (and can be
  earlier than the skip offset, since the frame number is truncated); and its duration is
  at least the minimum duration, hence positive whenever the minimum duration is (the
  default is 0.03).
\<close>

theorem note_start_and_duration_bounds:
  assumes "extract_notes c ex frames skip md = Inr result" and "0 < fps ex" and "n \<in> set result"
  shows "\<exists>n0 x y p. int_of_product skip (fps ex) = Inr n0
           \<and> round_double skip = Some x \<and> round_double (fps ex) = Some y
           \<and> round_double (x * y) = Some p \<and> n0 = trunc p
           \<and> of_int n0 / fps ex \<le> note_start n
           \<and> (p - 1) / fps ex < note_start n
           \<and> md \<le> note_duration n
           \<and> (0 < md \<longrightarrow> 0 < note_duration n)"
proof -
  from run_bounds [OF assms] obtain n0 where
    n0: "int_of_product skip (fps ex) = Inr n0"
    and lo: "of_int n0 / fps ex \<le> note_start n" and du: "md \<le> note_duration n"
    by blast
  from int_of_product_Inr [OF n0] obtain x y p where
    r: "round_double skip = Some x" "round_double (fps ex) = Some y" "round_double (x * y) = Some p"
    and t: "n0 = trunc p"
    by blast
  have "p - 1 < of_int n0"
    unfolding t by (rule trunc_gt)
  then have "(p - 1) / fps ex < of_int n0 / fps ex"
    using assms(2) by (simp add: divide_strict_right_mono)
  with lo have "(p - 1) / fps ex < note_start n"
    by simp
  moreover from du have "0 < md \<longrightarrow> 0 < note_duration n"
    by simp
  ultimately show ?thesis
    using n0 r t lo du by blast
qed

theorem note_start_and_duration_bounds_witness:
  "\<exists>result. extract_notes (\<lambda>p. p) (default_extractor demo_cap 500)
       [lit60_frame, lit60_frame, lit60_frame, dark_frame, dark_frame, dark_frame] 0 (3 / 100) = Inr result
     \<and> 0 < fps (default_extractor demo_cap 500)
     \<and> \<lparr>note_midi = 60, note_start = 0, note_duration = 1 / 10, note_hand = Some Left\<rparr> \<in> set result
     \<and> (\<exists>n0 x y p. int_of_product 0 (fps (default_extractor demo_cap 500)) = Inr n0
           \<and> round_double 0 = Some x \<and> round_double (fps (default_extractor demo_cap 500)) = Some y
           \<and> round_double (x * y) = Some p \<and> n0 = trunc p
           \<and> of_int n0 / fps (default_extractor demo_cap 500)
               \<le> note_start \<lparr>note_midi = 60, note_start = 0, note_duration = 1 / 10, note_hand = Some Left\<rparr>
           \<and> (p - 1) / fps (default_extractor demo_cap 500)
               < note_start \<lparr>note_midi = 60, note_start = 0, note_duration = 1 / 10, note_hand = Some Left\<rparr>
           \<and> 3 / 100 \<le> note_duration \<lparr>note_midi = 60, note_start = 0, note_duration = 1 / 10, note_hand = Some Left\<rparr>
           \<and> (0 :: rat) < 3 / 100
           \<and> 0 < note_duration \<lparr>note_midi = 60, note_start = 0, note_duration = 1 / 10, note_hand = Some Left\<rparr>)"
proof -
  from demo_run obtain result where
    run: "extract_notes (\<lambda>p. p) (default_extractor demo_cap 500)
       [lit60_frame, lit60_frame, lit60_frame, dark_frame, dark_frame, dark_frame] 0 (3 / 100) = Inr result"
    and mem: "\<lparr>note_midi = 60, note_start = 0, note_duration = 1 / 10, note_hand = Some Left\<rparr> \<in> set result"
    by blast
  have pos: "0 < fps (default_extractor demo_cap 500)"
    by (simp add: default_extractor_def demo_cap_def)
  have md: "(0 :: rat) < 3 / 100"
    by simp
  from note_start_and_duration_bounds [OF run pos mem] md run pos mem show ?thesis
    by (intro exI [of _ result]) blast
qed

text \<open>
  The claim as the specification states it (start time at least the skip offset) fails
  for a PAL video with a skip of half a second: the product 12.5 is truncated, reading
  starts at frame 12, whose time is 12/25 = 0.48 seconds. The frames 12 to 14 light
  pitch 60, the frames 15 and 16 do not.
\<close>

theorem pal_note_starts_before_skip:
  "map_sum (\<lambda>e. e) (notes_of 60)
     (extract_notes (\<lambda>p. p) (default_extractor pal_cap 500)
        [lit60_frame, lit60_frame, lit60_frame, dark_frame, dark_frame] (1 / 2) (3 / 100))
     = Inr [\<lparr>note_midi = 60, note_start = 12 / 25, note_duration = 3 / 25, note_hand = Some Left\<rparr>]
   \<and> note_start \<lparr>note_midi = 60, note_start = 12 / 25, note_duration = 3 / 25, note_hand = Some Left\<rparr> < 1 / 2"
proof -
  let ?ex = "default_extractor pal_cap 500"
  let ?fs = "[lit60_frame, lit60_frame, lit60_frame, dark_frame, dark_frame]"
  have f: "fps ?ex = 25" and r: "release_debounce_frames ?ex = 2"
    by (simp_all add: default_extractor_def pal_cap_def)
  have l: "is_key_lit (\<lambda>p. p) ?ex lit60_frame 60 = (True, Some Left)"
    by (rule lit60_any) (simp_all add: pal_cap_def)
  have u: "is_key_lit (\<lambda>p. p) ?ex dark_frame 60 = (False, None)"
    by (rule dark_any) (simp_all add: pal_cap_def)
  have nz: "fps ?ex \<noteq> 0" and e: "int_of_product (fps ?ex) 20 = Inr 500"
    and s: "int_of_product (1 / 2) (fps ?ex) = Inr 12"
    by (simp_all add: f int_of_product_25_20 int_of_product_half_25)
  have e0: "(500 :: int) \<noteq> 0"
    by simp
  from extract_notes_total [OF nz e e0 s] obtain result where
    run: "extract_notes (\<lambda>p. p) ?ex ?fs (1 / 2) (3 / 100) = Inr result"
    by blast
  from extract_notes_key [OF run default_distinct default_has_60_any] s obtain st out where
    key: "run_key ?ex (3 / 100) 60 (verdicts (\<lambda>p. p) ?ex 60 ?fs 12) (new_state, []) = Inr (st, out)"
    and nts: "notes_of 60 result = out @ close_key (of_int (total_frames ?ex) / fps ?ex) (3 / 100) (60, st) []"
    by auto
  have "run_key ?ex (3 / 100) 60 (verdicts (\<lambda>p. p) ?ex 60 ?fs 12) (new_state, [])
      = Inr (\<lparr>active = False, start_time = None, state_hand = Some Left, unlit_count = 2\<rparr>,
             [\<lparr>note_midi = 60, note_start = 12 / 25, note_duration = 3 / 25, note_hand = Some Left\<rparr>])"
    by (simp add: f r l u run_key_def update_key_def new_state_def)
  with key have "st = \<lparr>active = False, start_time = None, state_hand = Some Left, unlit_count = 2\<rparr>"
    and "out = [\<lparr>note_midi = 60, note_start = 12 / 25, note_duration = 3 / 25, note_hand = Some Left\<rparr>]"
    by simp_all
  with nts have "notes_of 60 result =
      [\<lparr>note_midi = 60, note_start = 12 / 25, note_duration = 3 / 25, note_hand = Some Left\<rparr>]"
    by (simp add: close_key_def)
  with run show ?thesis
    by simp
qed

section \<open>Where a note's start time and hand come from\<close>

lemma press_start_append: "press_start rdf vs i \<Longrightarrow> press_start rdf (vs @ ws) i"
  by (auto simp: press_start_def nth_append)

lemma press_start_nth_append:
  "press_start rdf vs i \<Longrightarrow> (vs @ ws) ! i = vs ! i"
  by (simp add: press_start_def nth_append)

lemma key_inv_step:
  assumes "key_inv (release_debounce_frames ex) vs (st, ns)"
    and "update_key ex md t k v (st, ns) = Inr (st', ns')"
  shows "key_inv (release_debounce_frames ex) (vs @ [(t, v)]) (st', ns')"
proof -
  obtain lit h where v: "v = (lit, h)" by (cases v)
  let ?R = "release_debounce_frames ex"
  let ?vs' = "vs @ [(t, v)]"
  have keep: "\<And>i. press_start ?R vs i \<Longrightarrow> press_start ?R ?vs' i \<and> ?vs' ! i = vs ! i"
    by (simp add: press_start_append press_start_nth_append)
  have old_notes: "\<forall>n\<in>set ns. \<exists>i. press_start ?R ?vs' i \<and> note_start n = fst (?vs' ! i)
                               \<and> note_hand n = snd (snd (?vs' ! i))"
    using assms(1) keep by (fastforce simp: key_inv_def)
  show ?thesis
  proof (cases lit)
    case True
    show ?thesis
    proof (cases "active st")
      case True
      with \<open>lit\<close> v assms(2) have eq: "st' = st\<lparr>unlit_count := 0\<rparr>" "ns' = ns"
        by (auto simp: update_key_def Let_def)
      from assms(1) True obtain i where "press_start ?R vs i" "start_time st = Some (fst (vs ! i))"
        "state_hand st = snd (snd (vs ! i))"
        by (auto simp: key_inv_def)
      with keep [of i] have "\<exists>i. press_start ?R ?vs' i \<and> start_time st = Some (fst (?vs' ! i))
          \<and> state_hand st = snd (snd (?vs' ! i))"
        by auto
      with eq True old_notes show ?thesis
        by (simp add: key_inv_def)
    next
      case False
      with \<open>lit\<close> v assms(2) have eq: "st' = st\<lparr>unlit_count := 0, active := True, start_time := Some t, state_hand := h\<rparr>"
        "ns' = ns"
        by (auto simp: update_key_def Let_def)
      from assms(1) False have idle: "\<forall>j<length vs. int (length vs) \<le> int j + max 1 ?R \<longrightarrow> \<not> fst (snd (vs ! j))"
        by (simp add: key_inv_def)
      have "press_start ?R ?vs' (length vs)"
        using idle \<open>lit\<close> v by (auto simp: press_start_def nth_append)
      then have "\<exists>i. press_start ?R ?vs' i \<and> Some t = Some (fst (?vs' ! i)) \<and> h = snd (snd (?vs' ! i))"
        using v by (intro exI [of _ "length vs"]) simp
      with eq old_notes show ?thesis
        by (simp add: key_inv_def)
    qed
  next
    case False
    show ?thesis
    proof (cases "active st")
      case inactive: False
      with \<open>\<not> lit\<close> v assms(2) have eq: "st' = st\<lparr>unlit_count := unlit_count st + 1\<rparr>" "ns' = ns"
        by (auto simp: update_key_def Let_def)
      from assms(1) inactive have idle: "\<forall>j<length vs. int (length vs) \<le> int j + max 1 ?R \<longrightarrow> \<not> fst (snd (vs ! j))"
        by (simp add: key_inv_def)
      have "\<forall>j<length ?vs'. int (length ?vs') \<le> int j + max 1 ?R \<longrightarrow> \<not> fst (snd (?vs' ! j))"
        using idle \<open>\<not> lit\<close> v by (auto simp: nth_append less_Suc_eq)
      with eq inactive old_notes show ?thesis
        by (simp add: key_inv_def)
    next
      case True
      from assms(1) True have cnt: "0 \<le> unlit_count st"
        and tail: "\<forall>j<length vs. int (length vs) \<le> int j + unlit_count st \<longrightarrow> \<not> fst (snd (vs ! j))"
        by (simp_all add: key_inv_def)
      from assms(1) True obtain i where i: "press_start ?R vs i" "start_time st = Some (fst (vs ! i))"
        "state_hand st = snd (snd (vs ! i))"
        by (auto simp: key_inv_def)
      show ?thesis
      proof (cases "?R \<le> unlit_count st + 1")
        case release: True
        with True \<open>\<not> lit\<close> v assms(2) i(2) have st': "\<not> active st'"
          and ns': "ns' = ns \<or> ns' = ns @ [\<lparr>note_midi = k, note_start = fst (vs ! i),
                       note_duration = t - of_int (?R - 1) / fps ex - fst (vs ! i), note_hand = state_hand st\<rparr>]"
          by (auto simp: update_key_def Let_def split: if_splits)
        have new_note: "\<exists>j. press_start ?R ?vs' j \<and> fst (vs ! i) = fst (?vs' ! j)
                               \<and> state_hand st = snd (snd (?vs' ! j))"
          using keep [OF i(1)] i(3) by (intro exI [of _ i]) simp
        have "\<forall>j<length ?vs'. int (length ?vs') \<le> int j + max 1 ?R \<longrightarrow> \<not> fst (snd (?vs' ! j))"
          using tail release \<open>\<not> lit\<close> v by (auto simp: nth_append less_Suc_eq)
        moreover have "\<forall>n\<in>set ns'. \<exists>i. press_start ?R ?vs' i \<and> note_start n = fst (?vs' ! i)
                               \<and> note_hand n = snd (snd (?vs' ! i))"
        proof
          fix n assume "n \<in> set ns'"
          with ns' consider "n \<in> set ns"
            | "n = \<lparr>note_midi = k, note_start = fst (vs ! i),
                       note_duration = t - of_int (?R - 1) / fps ex - fst (vs ! i), note_hand = state_hand st\<rparr>"
            by auto
          then show "\<exists>i. press_start ?R ?vs' i \<and> note_start n = fst (?vs' ! i)
                               \<and> note_hand n = snd (snd (?vs' ! i))"
          proof cases
            case 1
            with old_notes show ?thesis by blast
          next
            case 2
            with new_note show ?thesis by simp
          qed
        qed
        ultimately show ?thesis
          using st' by (simp add: key_inv_def)
      next
        case stay: False
        with True \<open>\<not> lit\<close> v assms(2) have eq: "st' = st\<lparr>unlit_count := unlit_count st + 1\<rparr>" "ns' = ns"
          by (auto simp: update_key_def Let_def)
        have "\<forall>j<length ?vs'. int (length ?vs') \<le> int j + (unlit_count st + 1) \<longrightarrow> \<not> fst (snd (?vs' ! j))"
          using tail \<open>\<not> lit\<close> v by (auto simp: nth_append less_Suc_eq)
        moreover from keep [OF i(1)] i(2,3) have "\<exists>i. press_start ?R ?vs' i \<and> start_time st = Some (fst (?vs' ! i))
          \<and> state_hand st = snd (snd (?vs' ! i))"
          by auto
        ultimately show ?thesis
          using eq True cnt old_notes by (simp add: key_inv_def)
      qed
    qed
  qed
qed

lemma key_inv_run:
  assumes "run_key ex md k ws s = Inr s'" and "key_inv (release_debounce_frames ex) vs s"
  shows "key_inv (release_debounce_frames ex) (vs @ ws) s'"
  using assms
proof (induction ws arbitrary: vs s)
  case Nil
  then show ?case by (simp add: run_key_Nil)
next
  case (Cons w ws)
  obtain t v where w: "w = (t, v)" by (cases w)
  obtain st ns where s: "s = (st, ns)" by (cases s)
  from Cons.prems(1) w obtain s1 where
    u: "update_key ex md t k v s = Inr s1" and r: "run_key ex md k ws s1 = Inr s'"
    by (auto simp: run_key_Cons split: sum.splits)
  obtain st1 ns1 where s1: "s1 = (st1, ns1)" by (cases s1)
  from key_inv_step [OF Cons.prems(2) [unfolded s] u [unfolded s s1]]
  have "key_inv (release_debounce_frames ex) (vs @ [(t, v)]) s1"
    by (simp add: s1)
  from Cons.IH [OF r this] w show ?case by simp
qed

lemma key_live_step:
  assumes "key_live (release_debounce_frames ex) vs st"
    and "update_key ex md t k v (st, ns) = Inr (st', ns')"
  shows "key_live (release_debounce_frames ex) (vs @ [(t, v)]) st'"
proof -
  obtain lit h where v: "v = (lit, h)" by (cases v)
  let ?R = "release_debounce_frames ex"
  show ?thesis
  proof (cases lit)
    case True
    with v assms(2) have "unlit_count st' = 0"
      by (auto simp: update_key_def Let_def split: if_splits)
    moreover have "\<exists>j<length (vs @ [(t, v)]). int (length (vs @ [(t, v)])) = int j + 0 + 1
        \<and> fst (snd ((vs @ [(t, v)]) ! j))"
      using True v by (intro exI [of _ "length vs"]) simp
    moreover have "(0::int) < max 1 ?R"
      by simp
    ultimately show ?thesis
      by (simp add: key_live_def)
  next
    case False
    show ?thesis
    proof (cases "active st'")
      case inactive: False
      then show ?thesis by (simp add: key_live_def)
    next
      case True
      with False v assms(2) have act: "active st" and eq: "unlit_count st' = unlit_count st + 1"
        and stay: "\<not> ?R \<le> unlit_count st + 1"
        by (auto simp: update_key_def Let_def split: if_splits option.splits)
      from assms(1) act obtain j where j: "j < length vs" "int (length vs) = int j + unlit_count st + 1"
        "fst (snd (vs ! j))" and cnt: "0 \<le> unlit_count st"
        by (auto simp: key_live_def)
      have "\<exists>j<length (vs @ [(t, v)]). int (length (vs @ [(t, v)])) = int j + (unlit_count st + 1) + 1
        \<and> fst (snd ((vs @ [(t, v)]) ! j))"
        using j by (intro exI [of _ j]) (simp add: nth_append)
      with eq stay cnt show ?thesis
        by (simp add: key_live_def)
    qed
  qed
qed

lemma key_live_run:
  assumes "run_key ex md k ws (st, ns) = Inr (st', ns')" and "key_live (release_debounce_frames ex) vs st"
  shows "key_live (release_debounce_frames ex) (vs @ ws) st'"
  using assms
proof (induction ws arbitrary: vs st ns)
  case Nil
  then show ?case by (simp add: run_key_Nil)
next
  case (Cons w ws)
  obtain t v where w: "w = (t, v)" by (cases w)
  from Cons.prems(1) w obtain st1 ns1 where
    u: "update_key ex md t k v (st, ns) = Inr (st1, ns1)" and r: "run_key ex md k ws (st1, ns1) = Inr (st', ns')"
    by (auto simp: run_key_Cons split: sum.splits)
  from Cons.IH [OF r key_live_step [OF Cons.prems(2) u]] w show ?case by simp
qed

text \<open>
  A frame starts a press exactly when its verdict is lit and the key is Idle after the
  verdicts before it.
\<close>

lemma press_start_iff_lit_while_idle:
  assumes "run_key ex md k (take i vs) (new_state, []) = Inr (st, ns)" and "i < length vs"
  shows "press_start (release_debounce_frames ex) vs i \<longleftrightarrow> fst (snd (vs ! i)) \<and> \<not> active st"
proof -
  let ?R = "release_debounce_frames ex"
  have len: "length (take i vs) = i"
    using assms(2) by simp
  have "key_live ?R [] new_state"
    by (simp add: key_live_def new_state_def)
  from key_live_run [OF assms(1) this] have live: "key_live ?R (take i vs) st"
    by simp
  have "key_inv ?R [] (new_state, [])"
    by (simp add: key_inv_def new_state_def)
  from key_inv_run [OF assms(1) this] have inv: "key_inv ?R (take i vs) (st, ns)"
    by simp
  show ?thesis
  proof
    assume ps: "press_start ?R vs i"
    have "\<not> active st"
    proof
      assume "active st"
      with live len obtain j where j: "j < i" "int i = int j + unlit_count st + 1" "fst (snd (take i vs ! j))"
        and c: "unlit_count st < max 1 ?R"
        by (auto simp: key_live_def)
      from j(1,3) have "fst (snd (vs ! j))" by simp
      moreover from j(2) c have "int i \<le> int j + max 1 ?R" by simp
      ultimately show False
        using ps j(1) by (auto simp: press_start_def)
    qed
    with ps show "fst (snd (vs ! i)) \<and> \<not> active st"
      by (simp add: press_start_def)
  next
    assume a: "fst (snd (vs ! i)) \<and> \<not> active st"
    with inv len have "\<forall>j<i. int i \<le> int j + max 1 ?R \<longrightarrow> \<not> fst (snd (take i vs ! j))"
      by (simp add: key_inv_def)
    then have "\<forall>j<i. int i \<le> int j + max 1 ?R \<longrightarrow> \<not> fst (snd (vs ! j))"
      by simp
    with a assms(2) show "press_start ?R vs i"
      by (simp add: press_start_def)
  qed
qed

text \<open>
  C9. A lit verdict on a Pressed key changes nothing but the unlit count, which becomes 0:
  start time, hand and the list of notes stay as they are. Hence, for every run over
  distinct keys and every note it returns, some frame of the run started a press of the
  note's pitch (its verdict for that pitch was lit while the key was Idle, see
  \<open>press_start\<close> and lemma \<open>press_start_iff_lit_while_idle\<close>), and the note's start time
  and hand are the time and the hand of that frame. Every table the constructor builds has
  distinct keys (lemma \<open>init_distinct\<close>).
\<close>

theorem note_keeps_first_lit_frame:
  "(active st \<longrightarrow> update_key ex md t k (True, h) (st, ns) = Inr (st\<lparr>unlit_count := 0\<rparr>, ns))
   \<and> (extract_notes c ex frames skip md = Inr result \<and> distinct (map fst (note_positions ex)) \<and> n \<in> set result
       \<longrightarrow> (\<exists>n0 i. int_of_product skip (fps ex) = Inr n0
                \<and> press_start (release_debounce_frames ex) (verdicts c ex (note_midi n) frames n0) i
                \<and> note_start n = fst (verdicts c ex (note_midi n) frames n0 ! i)
                \<and> note_hand n = snd (snd (verdicts c ex (note_midi n) frames n0 ! i))))"
proof (intro conjI impI)
  assume "active st"
  then show "update_key ex md t k (True, h) (st, ns) = Inr (st\<lparr>unlit_count := 0\<rparr>, ns)"
    by (simp add: update_key_def)
next
  assume a: "extract_notes c ex frames skip md = Inr result \<and> distinct (map fst (note_positions ex)) \<and> n \<in> set result"
  let ?k = "note_midi n"
  let ?R = "release_debounce_frames ex"
  from a have run: "extract_notes c ex frames skip md = Inr result"
    and d: "distinct (map fst (note_positions ex))" and n: "n \<in> set result"
    by simp_all
  from n have mem: "n \<in> set (notes_of ?k result)"
    by (simp add: notes_of_def)
  have k: "?k \<in> fst ` set (note_positions ex)"
  proof (rule ccontr)
    assume "?k \<notin> fst ` set (note_positions ex)"
    from extract_notes_other_key [OF run d this] mem show False by simp
  qed
  from extract_notes_key [OF run d k] obtain n0 st' out where
    n0: "int_of_product skip (fps ex) = Inr n0"
    and key: "run_key ex md ?k (verdicts c ex ?k frames n0) (new_state, []) = Inr (st', out)"
    and nts: "notes_of ?k result = out @ close_key (of_int (total_frames ex) / fps ex) md (?k, st') []"
    by blast
  let ?vs = "verdicts c ex ?k frames n0"
  have "key_inv ?R [] (new_state, [])"
    by (simp add: key_inv_def new_state_def)
  from key_inv_run [OF key this] have inv: "key_inv ?R ?vs (st', out)"
    by simp
  from mem nts consider "n \<in> set out" | "n \<in> set (close_key (of_int (total_frames ex) / fps ex) md (?k, st') [])"
    by auto
  then have "\<exists>i. press_start ?R ?vs i \<and> note_start n = fst (?vs ! i) \<and> note_hand n = snd (snd (?vs ! i))"
  proof cases
    case 1
    with inv show ?thesis by (simp add: key_inv_def)
  next
    case 2
    from close_key_set [OF 2] have "active st'" "start_time st' = Some (note_start n)" "note_hand n = state_hand st'"
      by simp_all
    with inv show ?thesis by (auto simp: key_inv_def)
  qed
  with n0 show "\<exists>n0 i. int_of_product skip (fps ex) = Inr n0
                \<and> press_start ?R (verdicts c ex ?k frames n0) i
                \<and> note_start n = fst (verdicts c ex ?k frames n0 ! i)
                \<and> note_hand n = snd (snd (verdicts c ex ?k frames n0 ! i))"
    by blast
qed

theorem note_keeps_first_lit_frame_witness:
  "active \<lparr>active = True, start_time = Some 0, state_hand = Some Left, unlit_count = 1\<rparr>
   \<and> update_key (default_extractor demo_cap 500) (3 / 100) (1 / 15) 60 (True, Some Right)
        (\<lparr>active = True, start_time = Some 0, state_hand = Some Left, unlit_count = 1\<rparr>, [])
       = Inr (\<lparr>active = True, start_time = Some 0, state_hand = Some Left, unlit_count = 0\<rparr>, [])
   \<and> distinct (map fst (note_positions (default_extractor demo_cap 500)))
   \<and> (\<exists>result. extract_notes (\<lambda>p. p) (default_extractor demo_cap 500)
          [lit60_frame, lit60_frame, lit60_frame, dark_frame, dark_frame, dark_frame] 0 (3 / 100) = Inr result
        \<and> \<lparr>note_midi = 60, note_start = 0, note_duration = 1 / 10, note_hand = Some Left\<rparr> \<in> set result
        \<and> (\<exists>n0 i. int_of_product 0 (fps (default_extractor demo_cap 500)) = Inr n0
               \<and> press_start (release_debounce_frames (default_extractor demo_cap 500))
                  (verdicts (\<lambda>p. p) (default_extractor demo_cap 500) 60
                     [lit60_frame, lit60_frame, lit60_frame, dark_frame, dark_frame, dark_frame] n0) i
               \<and> (0 :: rat) = fst (verdicts (\<lambda>p. p) (default_extractor demo_cap 500) 60
                     [lit60_frame, lit60_frame, lit60_frame, dark_frame, dark_frame, dark_frame] n0 ! i)
               \<and> Some Left = snd (snd (verdicts (\<lambda>p. p) (default_extractor demo_cap 500) 60
                     [lit60_frame, lit60_frame, lit60_frame, dark_frame, dark_frame, dark_frame] n0 ! i))))"
proof -
  let ?st = "\<lparr>active = True, start_time = Some 0, state_hand = Some Left, unlit_count = 1\<rparr>"
  let ?n = "\<lparr>note_midi = 60, note_start = 0, note_duration = 1 / 10, note_hand = Some Left\<rparr>"
  from demo_run obtain result where
    run: "extract_notes (\<lambda>p. p) (default_extractor demo_cap 500)
       [lit60_frame, lit60_frame, lit60_frame, dark_frame, dark_frame, dark_frame] 0 (3 / 100) = Inr result"
    and mem: "?n \<in> set result"
    by blast
  have a: "active ?st" by simp
  note inst = note_keeps_first_lit_frame [of ?st "default_extractor demo_cap 500" "3 / 100" "1 / 15" 60
      "Some Right" "[]" "\<lambda>p. p"
      "[lit60_frame, lit60_frame, lit60_frame, dark_frame, dark_frame, dark_frame]" 0 result ?n]
  from inst a have step: "update_key (default_extractor demo_cap 500) (3 / 100) (1 / 15) 60 (True, Some Right) (?st, [])
       = Inr (?st\<lparr>unlit_count := 0\<rparr>, [])"
    by blast
  from inst run default_distinct [of demo_cap 500] mem
  have origin: "\<exists>n0 i. int_of_product 0 (fps (default_extractor demo_cap 500)) = Inr n0
               \<and> press_start (release_debounce_frames (default_extractor demo_cap 500))
                  (verdicts (\<lambda>p. p) (default_extractor demo_cap 500) (note_midi ?n)
                     [lit60_frame, lit60_frame, lit60_frame, dark_frame, dark_frame, dark_frame] n0) i
               \<and> note_start ?n = fst (verdicts (\<lambda>p. p) (default_extractor demo_cap 500) (note_midi ?n)
                     [lit60_frame, lit60_frame, lit60_frame, dark_frame, dark_frame, dark_frame] n0 ! i)
               \<and> note_hand ?n = snd (snd (verdicts (\<lambda>p. p) (default_extractor demo_cap 500) (note_midi ?n)
                     [lit60_frame, lit60_frame, lit60_frame, dark_frame, dark_frame, dark_frame] n0 ! i))"
    by blast
  from origin have origin': "\<exists>n0 i. int_of_product 0 (fps (default_extractor demo_cap 500)) = Inr n0
               \<and> press_start (release_debounce_frames (default_extractor demo_cap 500))
                  (verdicts (\<lambda>p. p) (default_extractor demo_cap 500) 60
                     [lit60_frame, lit60_frame, lit60_frame, dark_frame, dark_frame, dark_frame] n0) i
               \<and> (0 :: rat) = fst (verdicts (\<lambda>p. p) (default_extractor demo_cap 500) 60
                     [lit60_frame, lit60_frame, lit60_frame, dark_frame, dark_frame, dark_frame] n0 ! i)
               \<and> Some Left = snd (snd (verdicts (\<lambda>p. p) (default_extractor demo_cap 500) 60
                     [lit60_frame, lit60_frame, lit60_frame, dark_frame, dark_frame, dark_frame] n0 ! i))"
    by simp
  from step have step': "update_key (default_extractor demo_cap 500) (3 / 100) (1 / 15) 60 (True, Some Right) (?st, [])
       = Inr (\<lparr>active = True, start_time = Some 0, state_hand = Some Left, unlit_count = 0\<rparr>, [])"
    by simp
  show ?thesis
    using a step' default_distinct [of demo_cap 500] run mem origin' by blast
qed

end
